theory Spec2Isabelle
  imports Complex_Main "HOL-Library.Log_Nat"
begin

section \<open>JavaScript numbers\<close>

text \<open>
  A JavaScript number is an IEEE 754 binary64 value. A finite value is modelled by the
  rational it denotes (\<open>Num\<close>); the two infinities and NaN are values of their own. The
  two zeros are one value: the program divides only by an image width and by the literal
  1024, both non-negative, so the sign of a zero never decides a result.
\<close>

datatype number = Num rat | PosInf | NegInf | NaN

text \<open>\<open>expo x\<close> is the binary exponent of a positive rational: the integer \<open>e\<close> with
  \<open>2 powi e \<le> x < 2 powi (e + 1)\<close>.\<close>

definition expo :: "rat \<Rightarrow> int" where
  "expo x = (if 1 \<le> x then bitlen \<lfloor>x\<rfloor> - 1 else - bitlen (\<lceil>1 / x\<rceil> - 1))"

definition round_half_even :: "rat \<Rightarrow> int" where
  "round_half_even y =
     (let f = \<lfloor>y\<rfloor>; d = y - of_int f
      in if d < 1 / 2 then f else if 1 / 2 < d then f + 1 else if even f then f else f + 1)"

text \<open>Rounding of an exact result to binary64: 53 significant bits, ties to even,
  gradual underflow below \<open>2 powi (-1022)\<close>, and overflow to an infinity when the rounded
  value reaches \<open>2 powi 1024\<close> (the exponent is above 1023, or it is 1023 and the
  significand rounds up to \<open>2 ^ 53\<close>).\<close>

definition to_number :: "rat \<Rightarrow> number" where
  "to_number x =
     (if x = 0 then Num 0
      else let e = max (expo \<bar>x\<bar>) (- 1022);
               u = 2 powi (e - 52);
               n = round_half_even (x / u)
           in if 1023 < e \<or> (e = 1023 \<and> 2 ^ 53 \<le> \<bar>n\<bar>)
              then (if x < 0 then NegInf else PosInf)
              else Num (of_int n * u))"

fun jsub :: "number \<Rightarrow> number \<Rightarrow> number" where
  "jsub (Num a) (Num b) = to_number (a - b)"
| "jsub NaN _ = NaN"
| "jsub _ NaN = NaN"
| "jsub PosInf PosInf = NaN"
| "jsub NegInf NegInf = NaN"
| "jsub PosInf _ = PosInf"
| "jsub NegInf _ = NegInf"
| "jsub (Num a) PosInf = NegInf"
| "jsub (Num a) NegInf = PosInf"

fun jmul :: "number \<Rightarrow> number \<Rightarrow> number" where
  "jmul (Num a) (Num b) = to_number (a * b)"
| "jmul NaN _ = NaN"
| "jmul _ NaN = NaN"
| "jmul (Num a) PosInf = (if a = 0 then NaN else if 0 < a then PosInf else NegInf)"
| "jmul (Num a) NegInf = (if a = 0 then NaN else if 0 < a then NegInf else PosInf)"
| "jmul PosInf (Num b) = (if b = 0 then NaN else if 0 < b then PosInf else NegInf)"
| "jmul NegInf (Num b) = (if b = 0 then NaN else if 0 < b then NegInf else PosInf)"
| "jmul PosInf PosInf = PosInf"
| "jmul PosInf NegInf = NegInf"
| "jmul NegInf PosInf = NegInf"
| "jmul NegInf NegInf = PosInf"

text \<open>Division; a zero divisor is the positive zero (see above).\<close>

fun jdiv :: "number \<Rightarrow> number \<Rightarrow> number" where
  "jdiv (Num a) (Num b) =
     (if b = 0 then (if a = 0 then NaN else if 0 < a then PosInf else NegInf)
      else to_number (a / b))"
| "jdiv NaN _ = NaN"
| "jdiv _ NaN = NaN"
| "jdiv (Num a) _ = Num 0"
| "jdiv PosInf (Num b) = (if b < 0 then NegInf else PosInf)"
| "jdiv NegInf (Num b) = (if b < 0 then PosInf else NegInf)"
| "jdiv _ _ = NaN"

text \<open>The comparisons \<open><=\<close> and \<open>>\<close>; every comparison with NaN is false.\<close>

fun jle :: "number \<Rightarrow> number \<Rightarrow> bool" where
  "jle (Num a) (Num b) = (a \<le> b)"
| "jle NaN _ = False"
| "jle _ NaN = False"
| "jle NegInf _ = True"
| "jle _ PosInf = True"
| "jle _ _ = False"

fun jgt :: "number \<Rightarrow> number \<Rightarrow> bool" where
  "jgt (Num a) (Num b) = (b < a)"
| "jgt NaN _ = False"
| "jgt _ NaN = False"
| "jgt PosInf PosInf = False"
| "jgt PosInf _ = True"
| "jgt NegInf _ = False"
| "jgt (Num a) NegInf = True"
| "jgt (Num a) PosInf = False"

section \<open>Files, blobs and the browser\<close>

text \<open>A \<open>Blob\<close> is its bytes; the \<open>size\<close> property is their count, read as a number.
  A \<open>File\<close> is a blob with a name.\<close>

type_synonym blob = "nat list"

definition blob_size :: "blob \<Rightarrow> number" where
  "blob_size b = to_number (of_nat (length b))"

record File =
  name :: string
  contents :: blob

definition file_size :: "File \<Rightarrow> number" where
  "file_size f = blob_size (contents f)"

text \<open>A thrown value: \<open>new Error(message)\<close>.\<close>

datatype js_error = JsError (message: string)

text \<open>
  What the page's host answers, as functions of what the program hands over:
  \<^item> \<open>readAsDataURL\<close>: the data URL of a file, or \<open>None\<close> when the reader fires \<open>onerror\<close>;
  \<^item> \<open>loadImage\<close>: the intrinsic width and height (\<open>unsigned long\<close> values) of the
    image decoded from a data URL, or \<open>None\<close> when the image fires \<open>onerror\<close>;
  \<^item> \<open>getContext\<close>: whether a canvas of the given size yields a 2d context;
  \<^item> \<open>toBlob\<close>: the JPEG blob of the canvas (the source drawn at the given width and
    height) at a quality, or \<open>None\<close> for the null blob;
  \<^item> \<open>newGoogleGenAI\<close>: the exception thrown by the constructor of the client of the
    model service, if it throws;
  \<^item> \<open>readBlob\<close>: the \<open>result\<close> of the reader at \<open>loadend\<close> when the analyzer reads a
    blob as a data URL; \<open>None\<close> is \<open>null\<close>, the read failed;
  \<^item> \<open>generateContent\<close>: the answer of the model service to a request with the given
    inline data (\<open>None\<close>: undefined): an exception thrown by the request, or the
    response's \<open>text\<close> (which may be undefined).
\<close>

record browser =
  readAsDataURL :: "File \<Rightarrow> string option"
  loadImage :: "string \<Rightarrow> (nat \<times> nat) option"
  getContext :: "number \<Rightarrow> number \<Rightarrow> bool"
  toBlob :: "string \<Rightarrow> number \<Rightarrow> number \<Rightarrow> number \<Rightarrow> blob option"
  newGoogleGenAI :: "js_error option"
  readBlob :: "blob \<Rightarrow> string option"
  generateContent :: "string option \<Rightarrow> js_error + string option"

section \<open>The compressor\<close>

text \<open>The calls made on the canvas, in order: the observable trace of a run.\<close>

datatype canvas_op = DrawImage number number | ToBlob number

definition quality :: number where
  "quality = to_number (92 / 100)"

definition step :: number where
  "step = to_number (8 / 100)"

definition minQuality :: number where
  "minQuality = to_number (1 / 10)"

text \<open>
  \<open>attemptCompression\<close> calls itself from the callback of \<open>toBlob\<close> for as long as the blob
  is above the target and the quality above the floor. For an arbitrary start the
  recursion need not end (at NaN no test ever succeeds), so the result is an option:
  \<open>None\<close> is a promise that never settles. \<open>Inl\<close> is \<open>reject\<close>, \<open>Inr\<close> is \<open>resolve\<close>.
\<close>

partial_function (option) attemptCompression ::
  "(number \<Rightarrow> blob option) \<Rightarrow> number \<Rightarrow> canvas_op list \<Rightarrow> number
     \<Rightarrow> (canvas_op list \<times> (js_error + blob)) option" where
  "attemptCompression encode targetSizeKb trace q =
     (case encode q of
        None \<Rightarrow> Some (trace @ [ToBlob q], Inl (JsError ''Compression failed''))
      | Some blob \<Rightarrow>
          let currentSizeKb = jdiv (blob_size blob) (Num 1024)
          in if jle currentSizeKb targetSizeKb \<or> jle q minQuality
             then Some (trace @ [ToBlob q], Inr blob)
             else attemptCompression encode targetSizeKb (trace @ [ToBlob q]) (jsub q step))"

text \<open>The resize block of \<open>compressImage\<close>: the width and height handed to \<open>drawImage\<close>.\<close>

definition resize :: "number \<Rightarrow> nat \<Rightarrow> nat \<Rightarrow> number \<times> number" where
  "resize maxWidth w h =
     (let width = Num (of_nat w); height = Num (of_nat h)
      in if jgt width maxWidth
         then (let height' = jmul (jdiv maxWidth width) height; width' = maxWidth
               in (width', height'))
         else (width, height))"

text \<open>\<open>compressImage\<close> with its two optional parameters: \<open>None\<close> is an argument left out,
  which takes the default.\<close>

definition compressImage ::
  "browser \<Rightarrow> File \<Rightarrow> number option \<Rightarrow> number option
     \<Rightarrow> (canvas_op list \<times> (js_error + blob)) option" where
  "compressImage env f targetSizeKb_arg maxWidth_arg =
     (let targetSizeKb = (case targetSizeKb_arg of None \<Rightarrow> Num 800 | Some t \<Rightarrow> t);
          maxWidth = (case maxWidth_arg of None \<Rightarrow> Num 2560 | Some m \<Rightarrow> m)
      in case readAsDataURL env f of
           None \<Rightarrow> Some ([], Inl (JsError ''File read error''))
         | Some src \<Rightarrow>
            (case loadImage env src of
               None \<Rightarrow> Some ([], Inl (JsError ''Image load error''))
             | Some (w, h) \<Rightarrow>
                (let (width, height) = resize maxWidth w h
                 in if \<not> getContext env width height
                    then Some ([], Inl (JsError ''Canvas context failed''))
                    else attemptCompression (toBlob env src width height) targetSizeKb
                           [DrawImage width height] quality)))"

text \<open>The qualities of the encode attempts of a trace.\<close>

fun encode_attempts :: "canvas_op list \<Rightarrow> number list" where
  "encode_attempts [] = []"
| "encode_attempts (ToBlob q # ops) = q # encode_attempts ops"
| "encode_attempts (DrawImage w h # ops) = encode_attempts ops"

text \<open>The qualities of \<open>n\<close> consecutive attempts from \<open>q\<close> on.\<close>

fun qualities :: "nat \<Rightarrow> number \<Rightarrow> number list" where
  "qualities 0 q = []"
| "qualities (Suc n) q = q # qualities n (jsub q step)"

definition schedule :: "number list" where
  "schedule = qualities 12 quality"

text \<open>Whether the attempt at \<open>q\<close> ends the loop (a null blob, a blob within the target, or
  a quality at or below the floor), and what the promise settles with there.\<close>

definition stops :: "(number \<Rightarrow> blob option) \<Rightarrow> number \<Rightarrow> number \<Rightarrow> bool" where
  "stops encode targetSizeKb q =
     (case encode q of
        None \<Rightarrow> True
      | Some blob \<Rightarrow> jle (jdiv (blob_size blob) (Num 1024)) targetSizeKb \<or> jle q minQuality)"

definition settle :: "(number \<Rightarrow> blob option) \<Rightarrow> number \<Rightarrow> js_error + blob" where
  "settle encode q =
     (case encode q of None \<Rightarrow> Inl (JsError ''Compression failed'') | Some blob \<Rightarrow> Inr blob)"

text \<open>The bound of the specification on the number of encode attempts.\<close>

definition max_attempts :: nat where
  "max_attempts = nat \<lceil>(92 / 100 - 10 / 100) / (8 / 100 :: rat)\<rceil> + 1"

text \<open>A finite number within \<open>10^-15\<close> of a rational.\<close>

definition near :: "number \<Rightarrow> rat \<Rightarrow> bool" where
  "near x c = (case x of Num r \<Rightarrow> \<bar>r - c\<bar> < 1 / 10 ^ 15 | _ \<Rightarrow> False)"

section \<open>The page: items, object URLs and pending promises\<close>

datatype status = Pending | Compressing | Done | Error

text \<open>An object URL is a fresh string of the browser; the model numbers them in the order
  of their creation. Such a string is never empty, so the truthiness tests of
  \<open>removeImage\<close> on a URL that is there always pass.\<close>

type_synonym url = nat

text \<open>The interface \<open>ImageFile\<close>. The field \<open>id\<close> is \<open>imageId\<close> here; an optional field that
  is unset is \<open>None\<close>.\<close>

record ImageFile =
  imageId :: string
  original :: File
  compressed :: "blob option"
  originalUrl :: url
  compressedUrl :: "url option"
  status :: status
  originalSize :: number
  compressedSize :: "number option"
  error :: "string option"
  aiAnalysis :: "string option"

text \<open>
  A pending promise with the continuation that waits for it:
  \<^item> \<open>AwaitCompress item p\<close>: \<open>processOne(image)\<close> is suspended at its \<open>await\<close>; \<open>p\<close> is what
    the promise of \<open>compressImage\<close> settles with (\<open>None\<close>: never);
  \<^item> \<open>ThenAnalysis item p\<close>: the \<open>then\<close> callback registered on \<open>analyzeImage\<close>; \<open>p\<close> is
    the string that promise fulfils with (\<open>None\<close>: it never settles).
\<close>

datatype task =
  AwaitCompress ImageFile "(canvas_op list \<times> (js_error + blob)) option"
| ThenAnalysis ImageFile "string option"

text \<open>The state of the page: the React state \<open>images\<close>, the ref \<open>processingQueue\<close>, the
  pending promises, and the object URL store (\<open>nextUrl\<close> URLs were created so far, numbered
  from 0; \<open>revoked\<close> lists the calls of \<open>URL.revokeObjectURL\<close>).\<close>

record App =
  images :: "ImageFile list"
  processingQueue :: "string set"
  tasks :: "task list"
  nextUrl :: nat
  revoked :: "url list"

definition init :: App where
  "init = \<lparr>images = [], processingQueue = {}, tasks = [], nextUrl = 0, revoked = []\<rparr>"

definition createObjectURL :: "App \<Rightarrow> url \<times> App" where
  "createObjectURL s = (nextUrl s, s\<lparr>nextUrl := Suc (nextUrl s)\<rparr>)"

definition revokeObjectURL :: "url \<Rightarrow> App \<Rightarrow> App" where
  "revokeObjectURL u s = s\<lparr>revoked := revoked s @ [u]\<rparr>"

text \<open>\<open>setImages\<close> with an updater function; updaters apply in the order they are queued.\<close>

definition setImages :: "(ImageFile list \<Rightarrow> ImageFile list) \<Rightarrow> App \<Rightarrow> App" where
  "setImages f s = s\<lparr>images := f (images s)\<rparr>"

section \<open>The analyzer\<close>

text \<open>\<open>base64String.split(',')[1]\<close>: the part between the first comma and the next one,
  undefined (\<open>None\<close>) when the string has no comma.\<close>

definition split_comma_1 :: "string \<Rightarrow> string option" where
  "split_comma_1 base64String =
     (case dropWhile (\<lambda>c. c \<noteq> CHR '','') base64String of
        [] \<Rightarrow> None
      | comma # rest \<Rightarrow> Some (takeWhile (\<lambda>c. c \<noteq> CHR '','') rest))"

text \<open>
  \<open>analyzeImage\<close>. Its body is one \<open>try\<close>, whose \<open>catch\<close> returns a fixed string: that
  catches what the constructor of the client and the request throw. The blob is read
  through a promise that only resolves, from the \<open>onloadend\<close> callback of the reader: when
  the read failed, \<open>reader.result\<close> is null, \<open>split\<close> throws in the callback, which is not
  in the \<open>try\<close>, and the promise never settles; then neither does \<open>analyzeImage\<close> (\<open>None\<close>).
  An undefined or empty \<open>response.text\<close> is falsy.
\<close>

definition analyzeImage :: "browser \<Rightarrow> blob \<Rightarrow> string option" where
  "analyzeImage env imageBlob =
     (case newGoogleGenAI env of
        Some err \<Rightarrow> Some ''AI analysis could not be completed.''
      | None \<Rightarrow>
          (case readBlob env imageBlob of
             None \<Rightarrow> None
           | Some base64String \<Rightarrow>
               (case generateContent env (split_comma_1 base64String) of
                  Inl err \<Rightarrow> Some ''AI analysis could not be completed.''
                | Inr text \<Rightarrow>
                    (case text of
                       None \<Rightarrow> Some ''No analysis available.''
                     | Some t \<Rightarrow> if t = [] then Some ''No analysis available.'' else Some t))))"

text \<open>An exception is thrown where the \<open>try\<close> of \<open>analyzeImage\<close> catches it: by the
  constructor of the client, or by the request.\<close>

definition caught :: "browser \<Rightarrow> blob \<Rightarrow> bool" where
  "caught env imageBlob =
     (case newGoogleGenAI env of
        Some err \<Rightarrow> True
      | None \<Rightarrow>
          (case readBlob env imageBlob of
             None \<Rightarrow> False
           | Some base64String \<Rightarrow>
               (case generateContent env (split_comma_1 base64String) of
                  Inl err \<Rightarrow> True
                | Inr text \<Rightarrow> False)))"

section \<open>The orchestrator\<close>

text \<open>\<open>processOne\<close> up to its \<open>await\<close>: the guard, the update to \<open>compressing\<close>, and the call
  \<open>compressImage(image.original, 800)\<close>, whose promise it then waits for. The parameter
  \<open>image\<close> is \<open>item\<close> here.\<close>

definition processOne :: "browser \<Rightarrow> ImageFile \<Rightarrow> App \<Rightarrow> App" where
  "processOne env item s =
     (if imageId item \<in> processingQueue s then s
      else
        let s1 = s\<lparr>processingQueue := insert (imageId item) (processingQueue s)\<rparr>;
            s2 = setImages (map (\<lambda>img. if imageId img = imageId item
                                         then img\<lparr>status := Compressing\<rparr> else img)) s1
        in s2\<lparr>tasks := tasks s2 @
                 [AwaitCompress item (compressImage env (original item) (Some (Num 800)) None)]\<rparr>)"

text \<open>\<open>processOne\<close> from its \<open>await\<close> on: the rest of the \<open>try\<close> when the promise resolved,
  the \<open>catch\<close> when it rejected, and the \<open>finally\<close> after either.\<close>

definition processOne_resume :: "browser \<Rightarrow> ImageFile \<Rightarrow> js_error + blob \<Rightarrow> App \<Rightarrow> App" where
  "processOne_resume env item settled s =
     (let s' =
        (case settled of
           Inr compressedBlob \<Rightarrow>
             (let (compressedUrl', s1) = createObjectURL s;
                  s2 = s1\<lparr>tasks := tasks s1 @
                         [ThenAnalysis item (analyzeImage env compressedBlob)]\<rparr>
              in setImages (map (\<lambda>img. if imageId img = imageId item
                                        then img\<lparr>status := Done,
                                                 compressed := Some compressedBlob,
                                                 compressedUrl := Some compressedUrl',
                                                 compressedSize := Some (blob_size compressedBlob)\<rparr>
                                        else img)) s2)
         | Inl err \<Rightarrow>
             setImages (map (\<lambda>img. if imageId img = imageId item
                                    then img\<lparr>status := Error, error := Some (message err)\<rparr>
                                    else img)) s)
      in s'\<lparr>processingQueue := processingQueue s' - {imageId item}\<rparr>)"

text \<open>The \<open>then\<close> callback of the analysis.\<close>

definition analysis_then :: "ImageFile \<Rightarrow> string \<Rightarrow> App \<Rightarrow> App" where
  "analysis_then item aiResponse s =
     setImages (map (\<lambda>img. if imageId img = imageId item
                            then img\<lparr>aiAnalysis := Some aiResponse\<rparr> else img)) s"

text \<open>\<open>handleFiles\<close>. Each file comes with the id that \<open>Math.random\<close> yields for it.\<close>

fun newImages :: "(string \<times> File) list \<Rightarrow> App \<Rightarrow> ImageFile list \<times> App" where
  "newImages [] s = ([], s)"
| "newImages ((i, f) # fs) s =
     (let (u, s1) = createObjectURL s;
          (rest, s2) = newImages fs s1
      in (\<lparr>imageId = i, original = f, compressed = None, originalUrl = u,
           compressedUrl = None, status = Pending, originalSize = file_size f,
           compressedSize = None, error = None, aiAnalysis = None\<rparr> # rest, s2))"

definition handleFiles :: "browser \<Rightarrow> (string \<times> File) list option \<Rightarrow> App \<Rightarrow> App" where
  "handleFiles env files s =
     (case files of
        None \<Rightarrow> s
      | Some fs \<Rightarrow>
          (let (new, s1) = newImages fs s;
               s2 = setImages (\<lambda>prev. prev @ new) s1
           in foldl (\<lambda>st img. processOne env img st) s2 new))"

definition removeImage :: "string \<Rightarrow> App \<Rightarrow> App" where
  "removeImage i s =
     (let prev = images s;
          removed = find (\<lambda>img. imageId img = i) prev;
          s1 = (case removed of None \<Rightarrow> s | Some r \<Rightarrow> revokeObjectURL (originalUrl r) s);
          s2 = (case removed of
                  None \<Rightarrow> s1
                | Some r \<Rightarrow>
                    (case compressedUrl r of None \<Rightarrow> s1 | Some u \<Rightarrow> revokeObjectURL u s1))
      in s2\<lparr>images := filter (\<lambda>img. imageId img \<noteq> i) prev\<rparr>)"

section \<open>The event loop\<close>

text \<open>
  The page runs on one thread: between two suspension points nothing interleaves. What
  happens is a sequence of events: files are dropped, an item is removed, or the \<open>k\<close>-th
  pending promise settles and its continuation runs. (A promise that never settles stays
  pending.)
\<close>

datatype event = HandleFiles "(string \<times> File) list option" | RemoveImage string | Settle nat

fun dispatch :: "browser \<Rightarrow> event \<Rightarrow> App \<Rightarrow> App" where
  "dispatch env (HandleFiles files) s = handleFiles env files s"
| "dispatch env (RemoveImage i) s = removeImage i s"
| "dispatch env (Settle k) s =
     (if length (tasks s) \<le> k then s
      else
        let s' = s\<lparr>tasks := take k (tasks s) @ drop (Suc k) (tasks s)\<rparr>
        in case tasks s ! k of
             AwaitCompress item p \<Rightarrow>
               (case p of None \<Rightarrow> s | Some (ops, settled) \<Rightarrow> processOne_resume env item settled s')
           | ThenAnalysis item p \<Rightarrow>
               (case p of None \<Rightarrow> s | Some aiResponse \<Rightarrow> analysis_then item aiResponse s'))"

text \<open>The ids are unique: an event is admissible when the ids it brings are borne by no
  item of the collection.\<close>

fun admissible :: "App \<Rightarrow> event \<Rightarrow> bool" where
  "admissible s (HandleFiles (Some fs)) = (\<forall>i\<in>set (map fst fs). i \<notin> set (map imageId (images s)))"
| "admissible s _ = True"

text \<open>The state after a sequence of events, \<open>None\<close> when one of them is not admissible.\<close>

fun run :: "browser \<Rightarrow> event list \<Rightarrow> App \<Rightarrow> App option" where
  "run env [] s = Some s"
| "run env (e # es) s = (if admissible s e then run env es (dispatch env e s) else None)"

section \<open>What holds of every state of the page\<close>

text \<open>An item has its compressed blob exactly when it is done, and then its
  \<open>compressedSize\<close> is the size of that blob.\<close>

definition item_ok :: "ImageFile \<Rightarrow> bool" where
  "item_ok img =
     (((compressed img \<noteq> None) = (status img = Done))
      \<and> (status img = Done \<longrightarrow>
            (\<exists>b. compressed img = Some b \<and> compressedSize img = Some (blob_size b))))"

text \<open>The ids of the items whose compression is pending.\<close>

fun awaiting :: "task list \<Rightarrow> string list" where
  "awaiting [] = []"
| "awaiting (AwaitCompress item p # ts) = imageId item # awaiting ts"
| "awaiting (ThenAnalysis item p # ts) = awaiting ts"

text \<open>The invariant: every item is as above; an item whose id is in the guard set has no
  compressed blob; the guard set is the set of the ids whose compression is pending, each
  once; and a pending compression is the call \<open>compressImage(image.original, 800)\<close>.\<close>

definition invariant :: "browser \<Rightarrow> App \<Rightarrow> bool" where
  "invariant env s =
     ((\<forall>img\<in>set (images s). item_ok img)
      \<and> (\<forall>img\<in>set (images s). imageId img \<in> processingQueue s \<longrightarrow> compressed img = None)
      \<and> distinct (awaiting (tasks s))
      \<and> set (awaiting (tasks s)) = processingQueue s
      \<and> (\<forall>item p. AwaitCompress item p \<in> set (tasks s) \<longrightarrow>
            p = compressImage env (original item) (Some (Num 800)) None))"

section \<open>An example page\<close>

text \<open>A host that reads every file; decodes it to a 1000 by 500 image unless the data is
  empty; encodes 10 bytes at every quality; reads every blob; and whose model service
  throws on every request. And the same host when it fails to read a blob.\<close>

definition demo :: browser where
  "demo = \<lparr>readAsDataURL = (\<lambda>f. Some (map (\<lambda>b. CHR ''x'') (contents f))),
           loadImage = (\<lambda>src. if src = [] then None else Some (1000, 500)),
           getContext = (\<lambda>w h. True),
           toBlob = (\<lambda>src w h q. Some (replicate 10 0)),
           newGoogleGenAI = None,
           readBlob = (\<lambda>b. Some ''data:image/jpeg;base64,AAAA''),
           generateContent = (\<lambda>d. Inl (JsError ''quota exceeded''))\<rparr>"

definition unreadable :: browser where
  "unreadable = demo\<lparr>readBlob := (\<lambda>b. None)\<rparr>"

definition photo :: File where
  "photo = \<lparr>name = ''photo.png'', contents = [137, 80, 78, 71]\<rparr>"

definition broken :: File where
  "broken = \<lparr>name = ''notes.txt'', contents = []\<rparr>"

text \<open>The item \<open>handleFiles\<close> makes of a file, an id and an object URL.\<close>

definition fresh_item :: "string \<Rightarrow> File \<Rightarrow> url \<Rightarrow> ImageFile" where
  "fresh_item i f u =
     \<lparr>imageId = i, original = f, compressed = None, originalUrl = u, compressedUrl = None,
      status = Pending, originalSize = file_size f, compressedSize = None, error = None,
      aiAnalysis = None\<rparr>"

text \<open>States of the example page: after a photo is dropped; after a broken file and a
  photo are dropped; and after both compressions of the latter have settled.\<close>

definition photo_pending :: App where
  "photo_pending =
     \<lparr>images = [fresh_item ''y'' photo 0\<lparr>status := Compressing\<rparr>],
      processingQueue = {''y''},
      tasks = [AwaitCompress (fresh_item ''y'' photo 0)
                 (Some ([DrawImage (Num 1000) (Num 500), ToBlob quality], Inr (replicate 10 0)))],
      nextUrl = 1, revoked = []\<rparr>"

definition two_pending :: App where
  "two_pending =
     \<lparr>images = [fresh_item ''x'' broken 0\<lparr>status := Compressing\<rparr>,
                fresh_item ''y'' photo 1\<lparr>status := Compressing\<rparr>],
      processingQueue = {''x'', ''y''},
      tasks = [AwaitCompress (fresh_item ''x'' broken 0)
                 (Some ([], Inl (JsError ''Image load error''))),
               AwaitCompress (fresh_item ''y'' photo 1)
                 (Some ([DrawImage (Num 1000) (Num 500), ToBlob quality], Inr (replicate 10 0)))],
      nextUrl = 2, revoked = []\<rparr>"

definition two_settled :: App where
  "two_settled =
     \<lparr>images = [fresh_item ''x'' broken 0\<lparr>status := Error, error := Some ''Image load error''\<rparr>,
                fresh_item ''y'' photo 1
                  \<lparr>status := Done, compressed := Some (replicate 10 0),
                   compressedUrl := Some 2, compressedSize := Some (Num 10)\<rparr>],
      processingQueue = {},
      tasks = [ThenAnalysis (fresh_item ''y'' photo 1) (Some ''AI analysis could not be completed.'')],
      nextUrl = 3, revoked = []\<rparr>"

section \<open>The quality schedule\<close>

lemma quality_val: "quality = Num (8286623314361713 / 9007199254740992)"
  by code_simp

lemma step_val: "step = Num (5764607523034235 / 72057594037927936)"
  by code_simp

lemma minQuality_val: "minQuality = Num (3602879701896397 / 36028797018963968)"
  by code_simp

lemma quality_step_1:
  "jsub (Num (8286623314361713 / 9007199254740992)) (Num (5764607523034235 / 72057594037927936)) =
     Num (3783023686991217 / 4503599627370496)"
  by code_simp

lemma quality_step_2:
  "jsub (Num (3783023686991217 / 4503599627370496)) (Num (5764607523034235 / 72057594037927936)) =
     Num (6845471433603155 / 9007199254740992)"
  by code_simp

lemma quality_step_3:
  "jsub (Num (6845471433603155 / 9007199254740992)) (Num (5764607523034235 / 72057594037927936)) =
     Num (1531223873305969 / 2251799813685248)"
  by code_simp

lemma quality_step_4:
  "jsub (Num (1531223873305969 / 2251799813685248)) (Num (5764607523034235 / 72057594037927936)) =
     Num (5404319552844597 / 9007199254740992)"
  by code_simp

lemma quality_step_5:
  "jsub (Num (5404319552844597 / 9007199254740992)) (Num (5764607523034235 / 72057594037927936)) =
     Num (2341871806232659 / 4503599627370496)"
  by code_simp

lemma quality_step_6:
  "jsub (Num (2341871806232659 / 4503599627370496)) (Num (5764607523034235 / 72057594037927936)) =
     Num (7926335344172077 / 18014398509481984)"
  by code_simp

lemma quality_step_7:
  "jsub (Num (7926335344172077 / 18014398509481984)) (Num (5764607523034235 / 72057594037927936)) =
     Num (3242591731706759 / 9007199254740992)"
  by code_simp

lemma quality_step_8:
  "jsub (Num (3242591731706759 / 9007199254740992)) (Num (5764607523034235 / 72057594037927936)) =
     Num (5044031582654959 / 18014398509481984)"
  by code_simp

lemma quality_step_9:
  "jsub (Num (5044031582654959 / 18014398509481984)) (Num (5764607523034235 / 72057594037927936)) =
     Num (225179981368525 / 1125899906842624)"
  by code_simp

lemma quality_step_10:
  "jsub (Num (225179981368525 / 1125899906842624)) (Num (5764607523034235 / 72057594037927936)) =
     Num (8646911284551365 / 72057594037927936)"
  by code_simp

lemma quality_step_11:
  "jsub (Num (8646911284551365 / 72057594037927936)) (Num (5764607523034235 / 72057594037927936)) =
     Num (1441151880758565 / 36028797018963968)"
  by code_simp

lemmas quality_steps =
  quality_step_1 quality_step_2 quality_step_3 quality_step_4
  quality_step_5 quality_step_6 quality_step_7 quality_step_8
  quality_step_9 quality_step_10 quality_step_11

lemma schedule_val:
  "schedule =
    [Num (8286623314361713 / 9007199254740992),
     Num (3783023686991217 / 4503599627370496),
     Num (6845471433603155 / 9007199254740992),
     Num (1531223873305969 / 2251799813685248),
     Num (5404319552844597 / 9007199254740992),
     Num (2341871806232659 / 4503599627370496),
     Num (7926335344172077 / 18014398509481984),
     Num (3242591731706759 / 9007199254740992),
     Num (5044031582654959 / 18014398509481984),
     Num (225179981368525 / 1125899906842624),
     Num (8646911284551365 / 72057594037927936),
     Num (1441151880758565 / 36028797018963968)]"
proof -
  have n: "(12::nat) = Suc (Suc (Suc (Suc (Suc (Suc (Suc (Suc (Suc (Suc (Suc (Suc 0)))))))))))"
    by simp
  show ?thesis
    unfolding schedule_def n quality_val
    by (simp only: qualities.simps step_val quality_steps)
qed

section \<open>The retry loop\<close>

lemma attempt_stop:
  "stops encode t q \<Longrightarrow>
     attemptCompression encode t trace q = Some (trace @ [ToBlob q], settle encode q)"
  by (subst attemptCompression.simps) (auto simp: stops_def settle_def split: option.splits)

lemma attempt_retry:
  "\<not> stops encode t q \<Longrightarrow>
     attemptCompression encode t trace q =
       attemptCompression encode t (trace @ [ToBlob q]) (jsub q step)"
  by (subst attemptCompression.simps) (auto simp: stops_def split: option.splits)

lemma floor_stops: "jle q minQuality \<Longrightarrow> stops encode t q"
  by (simp add: stops_def split: option.splits)

lemma attempt_run:
  "jle (qualities (Suc n) q ! n) minQuality \<Longrightarrow>
     \<exists>k\<le>n. attemptCompression encode t trace q =
             Some (trace @ map ToBlob (take (Suc k) (qualities (Suc n) q)),
                   settle encode (qualities (Suc n) q ! k))
          \<and> stops encode t (qualities (Suc n) q ! k)
          \<and> (\<forall>i<k. \<not> stops encode t (qualities (Suc n) q ! i))"
proof (induction n arbitrary: q trace)
  case 0
  then have "stops encode t q"
    by (simp add: floor_stops)
  then show ?case
    by (simp add: attempt_stop)
next
  case (Suc n)
  let ?rest = "qualities (Suc n) (jsub q step)"
  have qs: "qualities (Suc (Suc n)) q = q # ?rest"
    by simp
  show ?case
  proof (cases "stops encode t q")
    case True
    then have "attemptCompression encode t trace q =
                 Some (trace @ map ToBlob (take (Suc 0) (qualities (Suc (Suc n)) q)),
                       settle encode (qualities (Suc (Suc n)) q ! 0))
               \<and> stops encode t (qualities (Suc (Suc n)) q ! 0)
               \<and> (\<forall>i<0. \<not> stops encode t (qualities (Suc (Suc n)) q ! i))"
      by (simp add: attempt_stop)
    then show ?thesis
      by blast
  next
    case False
    from Suc.prems have "jle (?rest ! n) minQuality"
      by simp
    from Suc.IH [OF this, of "trace @ [ToBlob q]"]
    obtain k where k: "k \<le> n"
      and run: "attemptCompression encode t (trace @ [ToBlob q]) (jsub q step) =
                  Some ((trace @ [ToBlob q]) @ map ToBlob (take (Suc k) ?rest),
                        settle encode (?rest ! k))"
      and stop: "stops encode t (?rest ! k)"
      and before: "\<forall>i<k. \<not> stops encode t (?rest ! i)"
      by blast
    have "\<forall>i<Suc k. \<not> stops encode t ((q # ?rest) ! i)"
      using False before by (auto simp: less_Suc_eq_0_disj)
    moreover have "attemptCompression encode t trace q =
                     Some (trace @ map ToBlob (take (Suc (Suc k)) (q # ?rest)),
                           settle encode ((q # ?rest) ! Suc k))"
      using False run by (simp add: attempt_retry)
    moreover have "stops encode t ((q # ?rest) ! Suc k)"
      using stop by simp
    ultimately show ?thesis
      unfolding qs using k by (intro exI [of _ "Suc k"]) simp
  qed
qed

lemma less_12_cases:
  "i < 12 \<Longrightarrow> i = 0 \<or> i = 1 \<or> i = 2 \<or> i = 3 \<or> i = 4 \<or> i = 5 \<or> i = 6 \<or> i = 7 \<or> i = 8
     \<or> i = 9 \<or> i = 10 \<or> i = (11::nat)"
  by arith

lemma schedule_floor: "i < 12 \<Longrightarrow> jle (schedule ! i) minQuality \<longleftrightarrow> i = 11"
  by (drule less_12_cases) (auto simp: schedule_val minQuality_val)

lemma schedule_run:
  "\<exists>k<12. attemptCompression encode t trace quality =
            Some (trace @ map ToBlob (take (Suc k) schedule), settle encode (schedule ! k))
         \<and> stops encode t (schedule ! k)
         \<and> (\<forall>i<k. \<not> stops encode t (schedule ! i))"
proof -
  have "jle (qualities (Suc 11) quality ! 11) minQuality"
    using schedule_floor [of 11] by (simp add: schedule_def)
  from attempt_run [OF this, of encode t trace] obtain k where "k \<le> 11"
    and "attemptCompression encode t trace quality =
           Some (trace @ map ToBlob (take (Suc k) schedule), settle encode (schedule ! k))"
    and "stops encode t (schedule ! k)"
    and "\<forall>i<k. \<not> stops encode t (schedule ! i)"
    by (auto simp: schedule_def)
  then show ?thesis
    by (intro exI [of _ k]) simp
qed

lemma schedule_length: "length schedule = 12"
  by (simp add: schedule_val)

lemma schedule_near: "i < 12 \<Longrightarrow> near (schedule ! i) ((92 - 8 * of_nat i) / 100)"
  by (drule less_12_cases) (auto simp: schedule_val near_def)

lemma schedule_lowest: "i < 12 \<Longrightarrow> jle (schedule ! 11) (schedule ! i)"
  by (drule less_12_cases) (auto simp: schedule_val)

lemma schedule_steps: "i < 11 \<Longrightarrow> schedule ! Suc i = jsub (schedule ! i) step"
proof -
  have "Suc i < n \<Longrightarrow> qualities n q ! Suc i = jsub (qualities n q ! i) step" for n q
  proof (induction n arbitrary: q i)
    case 0
    then show ?case by simp
  next
    case (Suc n)
    then show ?case
      by (cases i) (auto simp: gr0_conv_Suc)
  qed
  then show "i < 11 \<Longrightarrow> schedule ! Suc i = jsub (schedule ! i) step"
    by (simp add: schedule_def)
qed

lemma max_attempts_val: "max_attempts = 12"
  by code_simp

text \<open>An encoder whose blob is 1000000 bytes (above 800 KB) at every quality: with it the
  loop ends only at the floor.\<close>

lemma to_number_1000000: "to_number 1000000 = Num 1000000"
  by code_simp

lemma kb_1000000: "jdiv (Num 1000000) (Num 1024) = Num (15625 / 16)"
  by code_simp

lemma oversize_stops:
  "stops (\<lambda>q. Some (replicate 1000000 0)) (Num 800) q \<longleftrightarrow> jle q minQuality"
  by (simp add: stops_def blob_size_def to_number_1000000 kb_1000000 del: jdiv.simps)

text \<open>
  C1. For every encoder and every target size, the loop started by \<open>compressImage\<close> encodes
  first at quality 0.92 and lowers the quality by 0.08 on each retry; it settles, at the
  first attempt \<open>k\<close> of the schedule whose blob is within the target or whose quality is at
  or below the floor 0.10 (or whose blob is null), and no earlier attempt was such. A blob
  produced by that attempt is what the promise resolves with, also when it is still above the
  target: only the last quality of the schedule is at or below the floor, and the blob
  encoded there is returned whatever its size.
\<close>

theorem attemptCompression_first_stop:
  "(\<exists>k<12.
      attemptCompression encode targetSizeKb trace quality =
        Some (trace @ map ToBlob (take (Suc k) schedule), settle encode (schedule ! k))
      \<and> stops encode targetSizeKb (schedule ! k)
      \<and> (\<forall>i<k. \<not> stops encode targetSizeKb (schedule ! i))
      \<and> (\<forall>blob. encode (schedule ! k) = Some blob \<longrightarrow> settle encode (schedule ! k) = Inr blob))
   \<and> schedule ! 0 = quality
   \<and> (\<forall>i<11. schedule ! Suc i = jsub (schedule ! i) step)
   \<and> (\<forall>i<12. jle (schedule ! i) minQuality \<longleftrightarrow> i = 11)"
proof -
  from schedule_run [of encode targetSizeKb trace] obtain k where k: "k < 12"
    and run: "attemptCompression encode targetSizeKb trace quality =
                Some (trace @ map ToBlob (take (Suc k) schedule), settle encode (schedule ! k))"
    and stop: "stops encode targetSizeKb (schedule ! k)"
    and before: "\<forall>i<k. \<not> stops encode targetSizeKb (schedule ! i)"
    by blast
  have resolved: "\<forall>blob. encode (schedule ! k) = Some blob \<longrightarrow> settle encode (schedule ! k) = Inr blob"
    by (simp add: settle_def)
  have start: "schedule ! 0 = quality"
    by (simp add: schedule_val quality_val)
  from k run stop before resolved start show ?thesis
    using schedule_steps schedule_floor by blast
qed

theorem attemptCompression_first_stop_witness:
  "attemptCompression (\<lambda>q. Some (replicate 1000000 0)) (Num 800) [] quality =
     Some (map ToBlob schedule, Inr (replicate 1000000 0))"
proof -
  let ?enc = "\<lambda>q::number. Some (replicate 1000000 (0::nat))"
  from attemptCompression_first_stop [of ?enc "Num 800" "[]"] obtain k where k: "k < 12"
    and run: "attemptCompression ?enc (Num 800) [] quality =
                Some ([] @ map ToBlob (take (Suc k) schedule), settle ?enc (schedule ! k))"
    and stop: "stops ?enc (Num 800) (schedule ! k)"
    and floor: "\<forall>i<12. jle (schedule ! i) minQuality \<longleftrightarrow> i = 11"
    by blast
  from stop have "jle (schedule ! k) minQuality"
    by (simp only: oversize_stops)
  with floor k have "k = 11"
    by blast
  with run show ?thesis
    by (simp add: settle_def schedule_length)
qed

lemma encode_attempts_append:
  "encode_attempts (xs @ ys) = encode_attempts xs @ encode_attempts ys"
  by (induction xs rule: encode_attempts.induct) simp_all

lemma encode_attempts_ToBlob: "encode_attempts (map ToBlob qs) = qs"
  by (induction qs) simp_all

lemma compressImage_settles:
  "\<exists>ops out. compressImage env f t m = Some (ops, out) \<and> length (encode_attempts ops) \<le> 12"
proof (cases "readAsDataURL env f")
  case None
  then show ?thesis
    by (simp add: compressImage_def)
next
  case (Some src)
  show ?thesis
  proof (cases "loadImage env src")
    case None
    with Some show ?thesis
      by (simp add: compressImage_def)
  next
    case dims: (Some d)
    obtain w h where d: "d = (w, h)"
      by (cases d)
    let ?maxWidth = "case m of None \<Rightarrow> Num 2560 | Some m' \<Rightarrow> m'"
    let ?t = "case t of None \<Rightarrow> Num 800 | Some t' \<Rightarrow> t'"
    obtain width height where r: "resize ?maxWidth w h = (width, height)"
      by (cases "resize ?maxWidth w h")
    show ?thesis
    proof (cases "getContext env width height")
      case False
      with Some dims d r show ?thesis
        by (simp add: compressImage_def)
    next
      case True
      from schedule_run [of "toBlob env src width height" ?t "[DrawImage width height]"]
      obtain k where "k < 12"
        and "attemptCompression (toBlob env src width height) ?t [DrawImage width height] quality =
               Some ([DrawImage width height] @ map ToBlob (take (Suc k) schedule),
                     settle (toBlob env src width height) (schedule ! k))"
        by blast
      with Some dims d r True show ?thesis
        by (simp add: compressImage_def encode_attempts_ToBlob schedule_length)
    qed
  qed
qed

text \<open>
  C5. For every encoder and every target size, the loop settles after at most
  \<open>ceil ((0.92 - 0.10) / 0.08) + 1\<close> encode attempts, which is 12; and so does every call
  of \<open>compressImage\<close>, whatever the file, the host and the arguments.
\<close>

theorem attempts_at_most_12:
  "(\<exists>qs out. attemptCompression encode targetSizeKb trace quality =
       Some (trace @ map ToBlob qs, out) \<and> length qs \<le> max_attempts)
   \<and> (\<exists>ops out. compressImage env f t m = Some (ops, out)
         \<and> length (encode_attempts ops) \<le> max_attempts)
   \<and> max_attempts = 12"
proof -
  from schedule_run [of encode targetSizeKb trace] obtain k where k: "k < 12"
    and run: "attemptCompression encode targetSizeKb trace quality =
                Some (trace @ map ToBlob (take (Suc k) schedule), settle encode (schedule ! k))"
    by blast
  from k have "length (take (Suc k) schedule) \<le> 12"
    by (simp add: schedule_length)
  with run compressImage_settles [of env f t m] show ?thesis
    unfolding max_attempts_val by blast
qed

theorem attempts_at_most_12_witness:
  "(\<exists>qs out. attemptCompression (\<lambda>q. Some (replicate 1000000 0)) (Num 800) [] quality =
       Some (map ToBlob qs, out) \<and> length qs \<le> 12)
   \<and> (\<exists>ops out. compressImage demo photo (Some (Num 800)) None = Some (ops, out)
         \<and> length (encode_attempts ops) \<le> 12)"
  using attempts_at_most_12 [of "\<lambda>q. Some (replicate 1000000 0)" "Num 800" "[]" demo photo
      "Some (Num 800)" None]
  by auto

text \<open>
  C10. The floor is tested in the callback of an attempt, after its blob is there, so the
  qualities of the attempts are the schedule 0.92, 0.84, ..., 0.12, 0.04 (each within
  \<open>10^-15\<close>, as binary64 subtraction rounds). When no attempt down to 0.12 ends the loop,
  the last attempt is the one at about 0.04, strictly below the floor 0.10; and no attempt
  uses a lower quality than that one.
\<close>

theorem attempts_follow_schedule:
  "(\<exists>k<12. attemptCompression encode targetSizeKb trace quality =
       Some (trace @ map ToBlob (take (Suc k) schedule), settle encode (schedule ! k)))
   \<and> (\<forall>i<12. near (schedule ! i) ((92 - 8 * of_nat i) / 100))
   \<and> ((\<forall>i<11. \<not> stops encode targetSizeKb (schedule ! i)) \<longrightarrow>
        attemptCompression encode targetSizeKb trace quality =
          Some (trace @ map ToBlob schedule, settle encode (schedule ! 11)))
   \<and> near (schedule ! 11) (4 / 100) \<and> near minQuality (10 / 100)
   \<and> jgt minQuality (schedule ! 11)
   \<and> (\<forall>i<12. jle (schedule ! 11) (schedule ! i))"
proof -
  from schedule_run [of encode targetSizeKb trace] obtain k where k: "k < 12"
    and run: "attemptCompression encode targetSizeKb trace quality =
                Some (trace @ map ToBlob (take (Suc k) schedule), settle encode (schedule ! k))"
    and stop: "stops encode targetSizeKb (schedule ! k)"
    by blast
  have all: "attemptCompression encode targetSizeKb trace quality =
               Some (trace @ map ToBlob schedule, settle encode (schedule ! 11))"
    if "\<forall>i<11. \<not> stops encode targetSizeKb (schedule ! i)"
  proof -
    from that stop have "\<not> k < 11"
      by blast
    with k have "k = 11"
      by simp
    with run show ?thesis
      by (simp add: schedule_length)
  qed
  have last: "near (schedule ! 11) (4 / 100)"
    using schedule_near [of 11] by simp
  have floor: "near minQuality (10 / 100)"
    by (simp add: minQuality_val near_def)
  have below: "jgt minQuality (schedule ! 11)"
    by (simp add: minQuality_val schedule_val)
  from k run all last floor below show ?thesis
    using schedule_near schedule_lowest by blast
qed

theorem attempts_follow_schedule_witness:
  "attemptCompression (\<lambda>q. Some (replicate 1000000 0)) (Num 800) [] quality =
     Some (map ToBlob schedule, Inr (replicate 1000000 0))
   \<and> last schedule = Num (1441151880758565 / 36028797018963968)
   \<and> near (last schedule) (4 / 100)"
proof -
  let ?enc = "\<lambda>q::number. Some (replicate 1000000 (0::nat))"
  have "\<forall>i<11. \<not> stops ?enc (Num 800) (schedule ! i)"
    using schedule_floor by (simp only: oversize_stops) simp
  with attempts_follow_schedule [of ?enc "Num 800" "[]"] show ?thesis
    by (simp add: settle_def) (simp add: schedule_val)
qed

section \<open>Rounding and the resize\<close>

lemma bitlen_pos_bounds:
  assumes "0 < n"
  shows "1 \<le> bitlen n" and "(2::rat) powi (bitlen n - 1) \<le> of_int n"
    and "of_int n + 1 \<le> (2::rat) powi bitlen n"
proof -
  from assms show b: "1 \<le> bitlen n"
    using bitlen_eq_zero_iff [of n] bitlen_nonneg [of n] by linarith
  from bitlen_bounds [OF assms]
  have lo: "2 ^ nat (bitlen n - 1) \<le> n" and hi: "n < 2 ^ nat (bitlen n)"
    by simp_all
  from lo have "(of_int (2 ^ nat (bitlen n - 1)) :: rat) \<le> of_int n"
    by (simp only: of_int_le_iff)
  with b show "(2::rat) powi (bitlen n - 1) \<le> of_int n"
    by (simp add: power_int_nonneg_exp)
  from hi have "n + 1 \<le> 2 ^ nat (bitlen n)"
    by simp
  then have "(of_int (n + 1) :: rat) \<le> of_int (2 ^ nat (bitlen n))"
    by (simp only: of_int_le_iff)
  with b show "of_int n + 1 \<le> (2::rat) powi bitlen n"
    by (simp add: power_int_nonneg_exp)
qed

lemma expo_bounds:
  assumes "0 < x"
  shows "2 powi expo x \<le> x" and "x < 2 powi (expo x + 1)"
proof -
  have "2 powi expo x \<le> x \<and> x < 2 powi (expo x + 1)"
  proof (cases "1 \<le> x")
    case True
    then have n: "0 < \<lfloor>x\<rfloor>"
      by simp
    note b = bitlen_pos_bounds [OF n]
    have e: "expo x = bitlen \<lfloor>x\<rfloor> - 1"
      using True by (simp add: expo_def)
    have "2 powi expo x \<le> (of_int \<lfloor>x\<rfloor> :: rat)"
      using b(2) by (simp add: e)
    also have "\<dots> \<le> x"
      by simp
    finally have lo: "2 powi expo x \<le> x" .
    have "x < of_int \<lfloor>x\<rfloor> + 1"
      by linarith
    also have "\<dots> \<le> (2::rat) powi (expo x + 1)"
      using b(3) by (simp add: e)
    finally show ?thesis
      using lo by simp
  next
    case False
    with assms have y: "1 < 1 / x"
      by (simp add: field_simps)
    define m where "m = \<lceil>1 / x\<rceil> - 1"
    from y have m: "0 < m"
      unfolding m_def by linarith
    note b = bitlen_pos_bounds [OF m]
    have c: "of_int m < 1 / x" "1 / x \<le> of_int m + 1"
      unfolding m_def using ceiling_correct [of "1 / x"] by simp_all
    have e: "expo x = - bitlen m"
      using False by (simp add: expo_def m_def)
    have p: "(0::rat) < 2 powi bitlen m" "(0::rat) < 2 powi (bitlen m - 1)"
      by simp_all
    have "1 / x \<le> 2 powi bitlen m"
      using c(2) b(3) by linarith
    with assms p(1) have lo: "1 / 2 powi bitlen m \<le> x"
      by (simp add: field_simps)
    have "2 powi (bitlen m - 1) < 1 / x"
      using c(1) b(2) by linarith
    with assms p(2) have hi: "x < 1 / 2 powi (bitlen m - 1)"
      by (simp add: field_simps)
    have "(2::rat) powi expo x = 1 / 2 powi bitlen m"
      by (simp add: e power_int_minus_divide)
    moreover have "2 powi (expo x + 1) = 1 / (2::rat) powi (bitlen m - 1)"
      using power_int_minus_divide [of "2::rat" "bitlen m - 1"] by (simp add: e)
    ultimately show ?thesis
      using lo hi by simp
  qed
  then show "2 powi expo x \<le> x" and "x < 2 powi (expo x + 1)"
    by simp_all
qed

lemma round_half_even_error: "\<bar>of_int (round_half_even y) - y\<bar> \<le> 1 / 2"
proof -
  have "of_int \<lfloor>y\<rfloor> \<le> y" "y < of_int \<lfloor>y\<rfloor> + 1"
    by linarith+
  then show ?thesis
    by (auto simp: round_half_even_def Let_def abs_le_iff)
qed

lemma to_number_normal:
  assumes lo: "2 powi (- 1022) \<le> x" and hi: "x < 2 powi 1023"
  shows "\<exists>r. to_number x = Num r \<and> \<bar>r - x\<bar> \<le> x / 2 ^ 53"
proof -
  have "(0::rat) < 2 powi (- 1022)"
    by (rule zero_less_power_int) simp
  with lo have pos: "0 < x"
    by linarith
  define e where "e = expo x"
  note eb = expo_bounds [OF pos, folded e_def]
  have "(2::rat) powi (- 1022) < 2 powi (e + 1)"
    using lo eb(2) by linarith
  then have e_lo: "- 1022 \<le> e"
    using power_int_le_imp_less_exp [of "2::rat" "e + 1" "- 1022"]
    by (smt (verit) power_int_increasing one_le_numeral not_le)
  have "(2::rat) powi e < 2 powi 1023"
    using hi eb(1) by linarith
  then have e_hi: "e < 1023"
    by (smt (verit) power_int_increasing one_le_numeral not_le)
  define u :: rat where "u = 2 powi (e - 52)"
  have u: "0 < u"
    unfolding u_def by simp
  define n where "n = round_half_even (x / u)"
  have val: "to_number x = Num (of_int n * u)"
    using pos e_lo e_hi
    by (simp add: to_number_def Let_def e_def [symmetric] u_def [symmetric] n_def [symmetric]
        max_absorb1)
  have "\<bar>of_int n - x / u\<bar> \<le> 1 / 2"
    unfolding n_def by (rule round_half_even_error)
  then have "\<bar>of_int n - x / u\<bar> * u \<le> 1 / 2 * u"
    using u by (simp only: mult_right_mono less_imp_le)
  moreover have "\<bar>of_int n - x / u\<bar> * u = \<bar>(of_int n - x / u) * u\<bar>"
    using u by (simp add: abs_mult)
  moreover have "(of_int n - x / u) * u = of_int n * u - x"
    using u by (simp add: field_simps)
  ultimately have err: "\<bar>of_int n * u - x\<bar> \<le> u / 2"
    by simp
  have "u * 2 ^ 53 = 2 powi (e + 1)"
    unfolding u_def using power_int_add [of "2::rat" "e - 52" 53] by (simp add: add.commute)
  moreover have "2 powi (e + 1) = 2 powi e * (2::rat)"
    using power_int_add [of "2::rat" e 1] by simp
  ultimately have "u / 2 = 2 powi e / 2 ^ 53"
    by (simp add: field_simps)
  also have "\<dots> \<le> x / 2 ^ 53"
    using eb(1) by (simp add: divide_right_mono)
  finally have "u / 2 \<le> x / 2 ^ 53" .
  with err val show ?thesis
    by force
qed

lemma normal_lo: "(2::rat) powi (- 1022) \<le> 1 / 2 ^ 33"
proof -
  have "(2::rat) powi (- 1022) \<le> 2 powi (- 33)"
    by (rule power_int_increasing) simp_all
  then show ?thesis
    by (simp add: power_int_minus_divide)
qed

lemma normal_hi: "(2::rat) ^ 33 < 2 powi 1023"
proof -
  have "(2::rat) powi 33 < 2 powi 1023"
    by (rule power_int_strict_increasing) simp_all
  then show ?thesis
    by simp
qed

lemma scaled_height_accuracy:
  assumes m: "1 \<le> m" "m < of_nat w" and w: "w < 2 ^ 32" and h: "0 < h" "h < 2 ^ 32"
  shows "\<exists>r. jmul (jdiv (Num m) (Num (of_nat w))) (Num (of_nat h)) = Num r
           \<and> \<bar>r - m / of_nat w * of_nat h\<bar> \<le> m / of_nat w * of_nat h / 2 ^ 51"
proof -
  define W :: rat where "W = of_nat w"
  define H :: rat where "H = of_nat h"
  define a where "a = m / W"
  have W: "1 < W" "W < 2 ^ 32"
    using m w by (simp_all add: W_def of_nat_less_numeral_power_cancel_iff)
  have H: "1 \<le> H" "H < 2 ^ 32"
    using h by (simp_all add: H_def of_nat_less_numeral_power_cancel_iff Suc_leI)
  have a: "1 / 2 ^ 32 < a" "a < 1"
  proof -
    have "1 / W \<le> m / W"
      using m(1) W(1) by (simp add: divide_right_mono)
    moreover have "1 / 2 ^ 32 < 1 / W"
      using W by (simp add: field_simps)
    ultimately show "1 / 2 ^ 32 < a"
      unfolding a_def by linarith
    show "a < 1"
      unfolding a_def using m(2) W(1) by (simp add: W_def)
  qed
  have "(1::rat) / 2 ^ 33 \<le> 1 / 2 ^ 32" "(1::rat) < 2 ^ 33"
    by simp_all
  with a have "1 / 2 ^ 33 \<le> a" "a < 2 ^ 33"
    by linarith+
  then have "2 powi (- 1022) \<le> a" "a < 2 powi 1023"
    using order_trans [OF normal_lo] less_trans [OF _ normal_hi]
    by blast+
  from to_number_normal [OF this] obtain r1
    where r1: "to_number a = Num r1" and e1: "\<bar>r1 - a\<bar> \<le> a / 2 ^ 53"
    by blast
  have "(0::rat) < 1 / 2 ^ 32"
    by simp
  with a(1) have a_pos: "0 < a"
    by linarith
  then have "a / 2 ^ 53 \<le> a / 2"
    by (intro divide_left_mono) simp_all
  with e1 have r1_bounds: "a / 2 \<le> r1" "r1 \<le> 2 * a"
    by linarith+
  have prod_lo: "1 / 2 ^ 33 \<le> r1 * H"
  proof -
    have "1 / 2 ^ 33 \<le> a / 2"
      using a(1) by simp
    also have "\<dots> \<le> r1"
      by (rule r1_bounds)
    also have "\<dots> \<le> r1 * H"
      using H(1) r1_bounds(1) a_pos by (simp add: mult_le_cancel_left1)
    finally show ?thesis .
  qed
  have prod_hi: "r1 * H < 2 ^ 33"
  proof -
    have "r1 < 2"
      using r1_bounds(2) a(2) by linarith
    moreover have "0 < r1"
      using r1_bounds(1) a_pos by linarith
    ultimately have "r1 * H < 2 * 2 ^ 32"
      using H by (intro mult_strict_mono) simp_all
    then show ?thesis
      by simp
  qed
  have "2 powi (- 1022) \<le> r1 * H" "r1 * H < 2 powi 1023"
    using order_trans [OF normal_lo prod_lo] less_trans [OF prod_hi normal_hi]
    by blast+
  from to_number_normal [OF this] obtain r2
    where r2: "to_number (r1 * H) = Num r2" and e2: "\<bar>r2 - r1 * H\<bar> \<le> r1 * H / 2 ^ 53"
    by blast
  have val: "jmul (jdiv (Num m) (Num (of_nat w))) (Num (of_nat h)) = Num r2"
    using W(1) r1 r2 by (simp add: W_def H_def a_def)
  have aH: "0 < a * H"
    using a_pos H(1) by simp
  have "\<bar>r1 * H - a * H\<bar> = \<bar>r1 - a\<bar> * H"
    using H(1) by (simp add: abs_mult left_diff_distrib [symmetric])
  also have "\<dots> \<le> a / 2 ^ 53 * H"
    using e1 H(1) by (intro mult_right_mono) simp_all
  finally have d1: "\<bar>r1 * H - a * H\<bar> \<le> a * H / 2 ^ 53"
    by simp
  have "r1 * H \<le> 2 * a * H"
    using r1_bounds(2) H(1) by (intro mult_right_mono) simp_all
  then have "r1 * H \<le> 2 * (a * H)"
    by (simp add: mult.assoc)
  then have "r1 * H / 2 ^ 53 \<le> 2 * (a * H) / 2 ^ 53"
    by (intro divide_right_mono) simp_all
  with e2 have d2: "\<bar>r2 - r1 * H\<bar> \<le> 2 * (a * H) / 2 ^ 53"
    by linarith
  have "\<bar>r2 - a * H\<bar> \<le> \<bar>r2 - r1 * H\<bar> + \<bar>r1 * H - a * H\<bar>"
    by linarith
  also have "\<dots> \<le> 2 * (a * H) / 2 ^ 53 + a * H / 2 ^ 53"
    using d1 d2 by linarith
  also have "\<dots> \<le> a * H / 2 ^ 51"
  proof -
    have "2 * c / 2 ^ 53 + c / 2 ^ 53 \<le> c / 2 ^ 51" if "0 < c" for c :: rat
      using that by simp
    from this [OF aH] show ?thesis .
  qed
  finally have "\<bar>r2 - m / of_nat w * of_nat h\<bar> \<le> m / of_nat w * of_nat h / 2 ^ 51"
    by (simp add: a_def W_def H_def)
  with val show ?thesis
    by blast
qed

lemma compressImage_draws:
  assumes "readAsDataURL env f = Some src" and "loadImage env src = Some (w, h)"
    and "getContext env (fst (resize maxWidth w h)) (snd (resize maxWidth w h))"
  shows "\<exists>qs out. compressImage env f t (Some maxWidth) =
           Some (DrawImage (fst (resize maxWidth w h)) (snd (resize maxWidth w h))
                   # map ToBlob qs, out)"
proof -
  obtain width height where dims: "resize maxWidth w h = (width, height)"
    by (cases "resize maxWidth w h")
  let ?encode = "toBlob env src width height"
  let ?t = "case t of None \<Rightarrow> Num 800 | Some t' \<Rightarrow> t'"
  from assms dims
  have "compressImage env f t (Some maxWidth) =
          attemptCompression ?encode ?t [DrawImage width height] quality"
    by (simp add: compressImage_def)
  with schedule_run [of ?encode ?t "[DrawImage width height]"] show ?thesis
    by (auto simp: dims)
qed

lemma compressImage_no_context:
  assumes "readAsDataURL env f = Some src" and "loadImage env src = Some (w, h)"
    and "\<not> getContext env (fst (resize maxWidth w h)) (snd (resize maxWidth w h))"
  shows "compressImage env f t (Some maxWidth) = Some ([], Inl (JsError ''Canvas context failed''))"
proof -
  obtain width height where "resize maxWidth w h = (width, height)"
    by (cases "resize maxWidth w h")
  with assms show ?thesis
    by (simp add: compressImage_def)
qed

lemma scaled_400: "jmul (jdiv (Num 800) (Num 1000)) (Num 500) = Num 400"
  by code_simp

lemma scaled_533: "jmul (jdiv (Num 800) (Num 3000)) (Num 2000) = Num (4691249611844267 / 8796093022208)"
  by code_simp

text \<open>
  C2. For every image of intrinsic size \<open>w\<close> by \<open>h\<close> and every \<open>maxWidth\<close>: when the width
  exceeds \<open>maxWidth\<close>, the image is drawn \<open>maxWidth\<close> wide and \<open>(maxWidth / w) * h\<close> high, which
  (for widths and heights of 32 bits and a \<open>maxWidth\<close> of at least 1) is the height in the
  ratio \<open>maxWidth / w\<close> up to the rounding of the two operations; otherwise it is drawn at its
  intrinsic size. Whenever the file is read, the image decodes and the canvas yields a
  context, \<open>compressImage\<close> does draw, and the raster it draws has these sizes; without a
  context it draws nothing and rejects.
\<close>

theorem resize_dimensions:
  "(jgt (Num (of_nat w)) maxWidth \<longrightarrow>
      resize maxWidth w h = (maxWidth, jmul (jdiv maxWidth (Num (of_nat w))) (Num (of_nat h))))
   \<and> (\<not> jgt (Num (of_nat w)) maxWidth \<longrightarrow> resize maxWidth w h = (Num (of_nat w), Num (of_nat h)))
   \<and> (\<forall>m. maxWidth = Num m \<and> 1 \<le> m \<and> m < of_nat w \<and> w < 2 ^ 32 \<and> 0 < h \<and> h < 2 ^ 32 \<longrightarrow>
        (\<exists>r. snd (resize maxWidth w h) = Num r
           \<and> \<bar>r - m / of_nat w * of_nat h\<bar> \<le> m / of_nat w * of_nat h / 2 ^ 51))
   \<and> (\<forall>env f t src.
        readAsDataURL env f = Some src \<and> loadImage env src = Some (w, h)
        \<and> getContext env (fst (resize maxWidth w h)) (snd (resize maxWidth w h)) \<longrightarrow>
          (\<exists>qs out. compressImage env f t (Some maxWidth) =
             Some (DrawImage (fst (resize maxWidth w h)) (snd (resize maxWidth w h))
                     # map ToBlob qs, out)))
   \<and> (\<forall>env f t src.
        readAsDataURL env f = Some src \<and> loadImage env src = Some (w, h)
        \<and> \<not> getContext env (fst (resize maxWidth w h)) (snd (resize maxWidth w h)) \<longrightarrow>
          compressImage env f t (Some maxWidth) =
            Some ([], Inl (JsError ''Canvas context failed'')))"
proof (intro conjI impI allI)
  assume "jgt (Num (of_nat w)) maxWidth"
  then show "resize maxWidth w h =
               (maxWidth, jmul (jdiv maxWidth (Num (of_nat w))) (Num (of_nat h)))"
    by (simp add: resize_def)
next
  assume "\<not> jgt (Num (of_nat w)) maxWidth"
  then show "resize maxWidth w h = (Num (of_nat w), Num (of_nat h))"
    by (simp add: resize_def)
next
  fix m
  assume a: "maxWidth = Num m \<and> 1 \<le> m \<and> m < of_nat w \<and> w < 2 ^ 32 \<and> 0 < h \<and> h < 2 ^ 32"
  then have "snd (resize maxWidth w h) = jmul (jdiv (Num m) (Num (of_nat w))) (Num (of_nat h))"
    by (simp add: resize_def)
  with a scaled_height_accuracy [of m w h]
  show "\<exists>r. snd (resize maxWidth w h) = Num r
          \<and> \<bar>r - m / of_nat w * of_nat h\<bar> \<le> m / of_nat w * of_nat h / 2 ^ 51"
    by simp
next
  fix env :: browser and f t src
  assume "readAsDataURL env f = Some src \<and> loadImage env src = Some (w, h)
          \<and> getContext env (fst (resize maxWidth w h)) (snd (resize maxWidth w h))"
  then show "\<exists>qs out. compressImage env f t (Some maxWidth) =
               Some (DrawImage (fst (resize maxWidth w h)) (snd (resize maxWidth w h))
                       # map ToBlob qs, out)"
    using compressImage_draws [of env f src w h maxWidth t] by blast
next
  fix env :: browser and f t src
  assume "readAsDataURL env f = Some src \<and> loadImage env src = Some (w, h)
          \<and> \<not> getContext env (fst (resize maxWidth w h)) (snd (resize maxWidth w h))"
  then show "compressImage env f t (Some maxWidth) =
               Some ([], Inl (JsError ''Canvas context failed''))"
    using compressImage_no_context [of env f src w h maxWidth t] by blast
qed

theorem resize_dimensions_witness:
  "resize (Num 800) 3000 2000 = (Num 800, Num (4691249611844267 / 8796093022208))
   \<and> \<bar>4691249611844267 / 8796093022208 - 800 / 3000 * 2000\<bar> \<le> 800 / 3000 * 2000 / (2 ^ 51 :: rat)
   \<and> resize (Num 800) 640 480 = (Num 640, Num 480)
   \<and> (\<exists>qs out. compressImage demo photo (Some (Num 800)) (Some (Num 800)) =
         Some (DrawImage (Num 800) (Num 400) # map ToBlob qs, out))
   \<and> (\<exists>qs out. compressImage demo photo (Some (Num 800)) (Some (Num 2560)) =
         Some (DrawImage (Num 1000) (Num 500) # map ToBlob qs, out))"
proof -
  note big = resize_dimensions [of 3000 "Num 800" 2000]
  have "jgt (Num (of_nat 3000)) (Num 800)"
    by simp
  with big have "resize (Num 800) 3000 2000 =
                   (Num 800, jmul (jdiv (Num 800) (Num (of_nat 3000))) (Num (of_nat 2000)))"
    by blast
  then have dims: "resize (Num 800) 3000 2000 =
                     (Num 800, Num (4691249611844267 / 8796093022208))"
    by (simp add: scaled_533 del: jmul.simps jdiv.simps)
  have "Num 800 = Num 800 \<and> (1::rat) \<le> 800 \<and> (800::rat) < of_nat 3000 \<and> (3000::nat) < 2 ^ 32
        \<and> (0::nat) < 2000 \<and> (2000::nat) < 2 ^ 32"
    by simp
  with big obtain r where "snd (resize (Num 800) 3000 2000) = Num r"
    and "\<bar>r - 800 / of_nat 3000 * of_nat 2000\<bar> \<le> 800 / of_nat 3000 * of_nat 2000 / 2 ^ 51"
    by blast
  with dims have close: "\<bar>4691249611844267 / 8796093022208 - 800 / 3000 * 2000\<bar>
                           \<le> 800 / 3000 * 2000 / (2 ^ 51 :: rat)"
    by simp
  note small = resize_dimensions [of 640 "Num 800" 480]
  have "\<not> jgt (Num (of_nat 640)) (Num 800)"
    by simp
  with small have low: "resize (Num 800) 640 480 = (Num (of_nat 640), Num (of_nat 480))"
    by blast
  have host: "readAsDataURL demo photo = Some ''xxxx''" "loadImage demo ''xxxx'' = Some (1000, 500)"
    "getContext demo a b" for a b
    by (simp_all add: demo_def photo_def)
  note down = resize_dimensions [of 1000 "Num 800" 500]
  have "jgt (Num (of_nat 1000)) (Num 800)"
    by simp
  with down have "resize (Num 800) 1000 500 =
                    (Num 800, jmul (jdiv (Num 800) (Num (of_nat 1000))) (Num (of_nat 500)))"
    by blast
  then have r800: "resize (Num 800) 1000 500 = (Num 800, Num 400)"
    by (simp add: scaled_400 del: jmul.simps jdiv.simps)
  from down host
  have "\<exists>qs out. compressImage demo photo (Some (Num 800)) (Some (Num 800)) =
          Some (DrawImage (fst (resize (Num 800) 1000 500)) (snd (resize (Num 800) 1000 500))
                  # map ToBlob qs, out)"
    by blast
  then have drawn800: "\<exists>qs out. compressImage demo photo (Some (Num 800)) (Some (Num 800)) =
                         Some (DrawImage (Num 800) (Num 400) # map ToBlob qs, out)"
    by (simp only: r800 fst_conv snd_conv)
  note keep = resize_dimensions [of 1000 "Num 2560" 500]
  have "\<not> jgt (Num (of_nat 1000)) (Num 2560)"
    by simp
  with keep have r2560: "resize (Num 2560) 1000 500 = (Num (of_nat 1000), Num (of_nat 500))"
    by blast
  from keep host
  have "\<exists>qs out. compressImage demo photo (Some (Num 800)) (Some (Num 2560)) =
          Some (DrawImage (fst (resize (Num 2560) 1000 500)) (snd (resize (Num 2560) 1000 500))
                  # map ToBlob qs, out)"
    by blast
  then have drawn2560: "\<exists>qs out. compressImage demo photo (Some (Num 800)) (Some (Num 2560)) =
                          Some (DrawImage (Num 1000) (Num 500) # map ToBlob qs, out)"
    by (simp add: r2560)
  from dims close low drawn800 drawn2560 show ?thesis
    by simp
qed

section \<open>The invariant is kept\<close>

lemma awaiting_append: "awaiting (ts @ us) = awaiting ts @ awaiting us"
  by (induction ts rule: awaiting.induct) auto

lemma awaiting_member:
  "AwaitCompress item p \<in> set ts \<Longrightarrow> imageId item \<in> set (awaiting ts)"
  by (induction ts rule: awaiting.induct) auto

lemma invariant_init: "invariant env init"
  by (simp add: invariant_def init_def)

lemma item_ok_compressing:
  "item_ok img \<Longrightarrow> compressed img = None \<Longrightarrow> item_ok (img\<lparr>status := Compressing\<rparr>)"
  by (simp add: item_ok_def)

lemma processOne_images:
  "images (processOne env item s) = images s \<or>
   images (processOne env item s) =
     map (\<lambda>img. if imageId img = imageId item then img\<lparr>status := Compressing\<rparr> else img) (images s)"
  by (simp add: processOne_def setImages_def Let_def)

lemma processOne_keeps:
  "map imageId (images (processOne env item s)) = map imageId (images s)"
  "map compressed (images (processOne env item s)) = map compressed (images s)"
  "length (images (processOne env item s)) = length (images s)"
  by (auto simp: processOne_def setImages_def Let_def)

lemma processOne_invariant:
  assumes "invariant env s"
    and "\<forall>img\<in>set (images s). imageId img = imageId item \<longrightarrow> compressed img = None"
  shows "invariant env (processOne env item s)"
proof (cases "imageId item \<in> processingQueue s")
  case True
  with assms show ?thesis
    by (simp add: processOne_def)
next
  case False
  with assms(1) have fresh: "imageId item \<notin> set (awaiting (tasks s))"
    by (simp add: invariant_def)
  from False have eq: "processOne env item s =
    s\<lparr>processingQueue := insert (imageId item) (processingQueue s),
      images := map (\<lambda>img. if imageId img = imageId item then img\<lparr>status := Compressing\<rparr> else img) (images s),
      tasks := tasks s @ [AwaitCompress item (compressImage env (original item) (Some (Num 800)) None)]\<rparr>"
    by (simp add: processOne_def setImages_def Let_def)
  show ?thesis
    unfolding eq invariant_def
    using assms fresh
    by (auto simp: invariant_def awaiting_append item_ok_compressing)
qed

lemma newImages_result:
  "newImages fs s = (new, s1) \<Longrightarrow>
     s1 = s\<lparr>nextUrl := nextUrl s + length fs\<rparr>
     \<and> map imageId new = map fst fs
     \<and> (\<forall>img\<in>set new. compressed img = None \<and> compressedUrl img = None \<and> status img = Pending)"
proof (induction fs arbitrary: s new s1)
  case Nil
  then show ?case by simp
next
  case (Cons a fs)
  obtain i f where a: "a = (i, f)"
    by (cases a)
  obtain rest s2 where rest: "newImages fs (s\<lparr>nextUrl := Suc (nextUrl s)\<rparr>) = (rest, s2)"
    by (cases "newImages fs (s\<lparr>nextUrl := Suc (nextUrl s)\<rparr>)")
  from Cons.IH [OF rest] Cons.prems a rest show ?case
    by (auto simp: createObjectURL_def)
qed

lemma processOne_fold_invariant:
  "invariant env s \<Longrightarrow>
   \<forall>item\<in>set new. \<forall>img\<in>set (images s). imageId img = imageId item \<longrightarrow> compressed img = None \<Longrightarrow>
   invariant env (foldl (\<lambda>st img. processOne env img st) s new)"
proof (induction new arbitrary: s)
  case Nil
  then show ?case by simp
next
  case (Cons item new)
  have inv: "invariant env (processOne env item s)"
    using Cons.prems by (intro processOne_invariant) auto
  have "\<forall>it\<in>set new. \<forall>img\<in>set (images (processOne env item s)).
          imageId img = imageId it \<longrightarrow> compressed img = None"
    using Cons.prems(2) processOne_images [of env item s] by auto
  with inv show ?case
    by (simp add: Cons.IH)
qed

lemma handleFiles_invariant:
  assumes "invariant env s" and "admissible s (HandleFiles files)"
  shows "invariant env (handleFiles env files s)"
proof (cases files)
  case None
  with assms show ?thesis
    by (simp add: handleFiles_def)
next
  case (Some fs)
  obtain new s1 where new: "newImages fs s = (new, s1)"
    by (cases "newImages fs s")
  note res = newImages_result [OF new]
  let ?s2 = "setImages (\<lambda>prev. prev @ new) s1"
  have ids: "imageId ` set new = fst ` set fs"
    using res by (metis image_set)
  have inv2: "invariant env ?s2"
    using assms(1) res
    by (auto simp: invariant_def setImages_def item_ok_def)
  have "\<forall>item\<in>set new. \<forall>img\<in>set (images ?s2). imageId img = imageId item \<longrightarrow> compressed img = None"
  proof (intro ballI impI)
    fix item img
    assume item: "item \<in> set new" and img: "img \<in> set (images ?s2)"
      and same: "imageId img = imageId item"
    from item ids have "imageId item \<in> fst ` set fs"
      by blast
    moreover from assms(2) Some have "\<forall>i\<in>fst ` set fs. i \<notin> imageId ` set (images s)"
      by simp
    ultimately have "imageId img \<notin> imageId ` set (images s)"
      using same by metis
    with img res have "img \<in> set new"
      by (auto simp: setImages_def)
    with res show "compressed img = None"
      by blast
  qed
  with inv2 have "invariant env (foldl (\<lambda>st img. processOne env img st) ?s2 new)"
    by (rule processOne_fold_invariant)
  with Some new show ?thesis
    by (simp add: handleFiles_def)
qed

lemma removeImage_invariant:
  "invariant env s \<Longrightarrow> invariant env (removeImage i s)"
  by (auto simp: invariant_def removeImage_def revokeObjectURL_def Let_def
      split: option.splits)

lemma awaiting_split:
  "k < length ts \<Longrightarrow>
     awaiting ts = awaiting (take k ts) @ awaiting [ts ! k] @ awaiting (drop (Suc k) ts)"
  by (metis append_Cons append_Nil awaiting_append id_take_nth_drop)

lemma awaiting_remove_await:
  assumes "k < length ts" and "ts ! k = AwaitCompress item p" and "distinct (awaiting ts)"
  shows "distinct (awaiting (take k ts @ drop (Suc k) ts))"
    and "set (awaiting (take k ts @ drop (Suc k) ts)) = set (awaiting ts) - {imageId item}"
  using assms awaiting_split [of k ts] by (auto simp: awaiting_append)

lemma awaiting_remove_then:
  "k < length ts \<Longrightarrow> ts ! k = ThenAnalysis item t \<Longrightarrow>
     awaiting (take k ts @ drop (Suc k) ts) = awaiting ts"
  using awaiting_split [of k ts] by (simp add: awaiting_append)

lemma remove_task_subset: "x \<in> set (take k ts @ drop (Suc k) ts) \<Longrightarrow> x \<in> set ts"
  by (auto dest: in_set_takeD in_set_dropD)

lemma settle_invariant:
  assumes inv: "invariant env s"
  shows "invariant env (dispatch env (Settle k) s)"
proof (cases "k < length (tasks s)")
  case False
  with inv show ?thesis
    by simp
next
  case k: True
  let ?ts = "take k (tasks s) @ drop (Suc k) (tasks s)"
  have sub: "\<And>x. x \<in> set ?ts \<Longrightarrow> x \<in> set (tasks s)"
    by (rule remove_task_subset)
  show ?thesis
  proof (cases "tasks s ! k")
    case (ThenAnalysis item p)
    have "awaiting ?ts = awaiting (tasks s)"
      using k ThenAnalysis by (rule awaiting_remove_then)
    with inv sub have "invariant env (analysis_then item aiResponse (s\<lparr>tasks := ?ts\<rparr>))"
      for aiResponse
      by (auto simp: invariant_def analysis_then_def setImages_def item_ok_def)
    with k ThenAnalysis inv show ?thesis
      by (cases p) (simp_all add: Let_def)
  next
    case (AwaitCompress item p)
    from inv have dist: "distinct (awaiting (tasks s))"
      by (simp add: invariant_def)
    note rm = awaiting_remove_await [OF k AwaitCompress dist]
    from k AwaitCompress have "AwaitCompress item p \<in> set (tasks s)"
      by (metis nth_mem)
    then have "imageId item \<in> set (awaiting (tasks s))"
      by (rule awaiting_member)
    with inv have queued: "imageId item \<in> processingQueue s"
      by (simp add: invariant_def)
    show ?thesis
    proof (cases p)
      case None
      with k AwaitCompress inv show ?thesis
        by (simp add: Let_def)
    next
      case (Some r)
      obtain ops settled where r: "r = (ops, settled)"
        by (cases r)
      have "invariant env (processOne_resume env item settled (s\<lparr>tasks := ?ts\<rparr>))"
      proof (cases settled)
        case (Inl err)
        with inv sub rm queued show ?thesis
          by (auto simp: invariant_def processOne_resume_def setImages_def item_ok_def)
      next
        case (Inr blob)
        with inv sub rm queued show ?thesis
          by (auto simp: invariant_def processOne_resume_def setImages_def item_ok_def
              createObjectURL_def awaiting_append)
      qed
      with k AwaitCompress Some r show ?thesis
        by (simp add: Let_def)
    qed
  qed
qed

lemma dispatch_invariant:
  "invariant env s \<Longrightarrow> admissible s e \<Longrightarrow> invariant env (dispatch env e s)"
proof (cases e)
  case (HandleFiles files)
  assume "invariant env s" "admissible s e"
  with HandleFiles show ?thesis
    by (simp add: handleFiles_invariant)
next
  case (RemoveImage i)
  assume "invariant env s"
  with RemoveImage show ?thesis
    by (simp add: removeImage_invariant)
next
  case (Settle k)
  assume "invariant env s"
  with Settle show ?thesis
    by (simp only: settle_invariant)
qed

lemma run_invariant:
  "run env es s = Some s' \<Longrightarrow> invariant env s \<Longrightarrow> invariant env s'"
proof (induction es arbitrary: s)
  case Nil
  then show ?case by simp
next
  case (Cons e es)
  then show ?case
    by (auto simp: dispatch_invariant split: if_splits)
qed

declare dispatch.simps [simp del]

section \<open>The orchestrator on the example page and in general\<close>

lemma to_number_10: "to_number 10 = Num 10"
  by code_simp

lemma kb_10: "jdiv (Num 10) (Num 1024) = Num (5 / 512)"
  by code_simp

lemma small_stops: "stops (\<lambda>q. Some (replicate 10 0)) (Num 800) q"
  by (simp add: stops_def blob_size_def to_number_10 kb_10 del: jdiv.simps)

lemma compress_photo:
  "compressImage demo photo (Some (Num 800)) None =
     Some ([DrawImage (Num 1000) (Num 500), ToBlob quality], Inr (replicate 10 0))"
  by (simp add: compressImage_def demo_def photo_def resize_def attempt_stop small_stops
      settle_def)

lemma compress_broken:
  "compressImage demo broken (Some (Num 800)) None = Some ([], Inl (JsError ''Image load error''))"
  by (simp add: compressImage_def demo_def broken_def)

lemma compress_photo_800:
  "compressImage demo photo (Some (Num 800)) (Some (Num 800)) =
     Some ([DrawImage (Num 800) (Num 400), ToBlob quality], Inr (replicate 10 0))"
  by (simp add: compressImage_def demo_def photo_def resize_def attempt_stop small_stops
      settle_def scaled_400 del: jmul.simps jdiv.simps)

lemma analyze_demo: "analyzeImage demo b = Some ''AI analysis could not be completed.''"
  by (simp add: analyzeImage_def demo_def)

lemma run_two:
  "run demo [HandleFiles (Some [(''x'', broken), (''y'', photo)])] init =
     Some \<lparr>images = [fresh_item ''x'' broken 0\<lparr>status := Compressing\<rparr>,
                      fresh_item ''y'' photo 1\<lparr>status := Compressing\<rparr>],
           processingQueue = {''x'', ''y''},
           tasks = [AwaitCompress (fresh_item ''x'' broken 0)
                      (Some ([], Inl (JsError ''Image load error''))),
                    AwaitCompress (fresh_item ''y'' photo 1)
                      (Some ([DrawImage (Num 1000) (Num 500), ToBlob quality],
                             Inr (replicate 10 0)))],
           nextUrl = 2, revoked = []\<rparr>"
  by (simp add: init_def dispatch.simps handleFiles_def createObjectURL_def setImages_def
      processOne_def fresh_item_def compress_photo compress_broken insert_commute)

lemma compressImage_default:
  "compressImage env f t None = compressImage env f t (Some (Num 2560))"
  by (simp add: compressImage_def)

lemma attemptCompression_rejects:
  "attemptCompression encode t trace quality = Some (ops, Inl err) \<Longrightarrow>
     err = JsError ''Compression failed''"
  using schedule_run [of encode t trace]
  by (auto simp: settle_def split: option.splits)

lemma compressImage_rejects:
  assumes "compressImage env f t m = Some (ops, Inl err)"
  shows "message err \<in> {''File read error'', ''Image load error'', ''Canvas context failed'',
                         ''Compression failed''}"
  using assms
  by (auto simp: compressImage_def Let_def split: option.splits prod.splits if_splits
      dest!: attemptCompression_rejects)

lemma reachable_invariant: "run env es init = Some s \<Longrightarrow> invariant env s"
  by (rule run_invariant [OF _ invariant_init])

lemma pending_is_queued:
  assumes "invariant env s" and "AwaitCompress item p \<in> set (tasks s)"
  shows "imageId item \<in> processingQueue s"
  using assms awaiting_member [of item p "tasks s"] by (simp add: invariant_def)

text \<open>
  C3 (as the code has it). \<open>processOne\<close> calls \<open>compressImage(image.original, 800)\<close>: the
  800 is the target size in KB, and the maximal width is left out, so it is the default 2560
  of \<open>compressImage\<close>. Every compression that \<open>processOne\<close> starts, and every compression
  pending in a state the page can reach, is the call with target size 800 KB and maximal
  width 2560.
\<close>

theorem processOne_configuration:
  "(imageId item \<notin> processingQueue s \<longrightarrow>
      tasks (processOne env item s) =
        tasks s @ [AwaitCompress item
                     (compressImage env (original item) (Some (Num 800)) (Some (Num 2560)))])
   \<and> (run env es init = Some s' \<longrightarrow>
        (\<forall>it p. AwaitCompress it p \<in> set (tasks s') \<longrightarrow>
           p = compressImage env (original it) (Some (Num 800)) (Some (Num 2560))))"
proof (intro conjI impI allI)
  assume "imageId item \<notin> processingQueue s"
  then show "tasks (processOne env item s) =
               tasks s @ [AwaitCompress item
                            (compressImage env (original item) (Some (Num 800)) (Some (Num 2560)))]"
    by (simp add: processOne_def setImages_def compressImage_default)
next
  fix it p
  assume "run env es init = Some s'" and "AwaitCompress it p \<in> set (tasks s')"
  then have "p = compressImage env (original it) (Some (Num 800)) None"
    using reachable_invariant [of env es s'] by (simp add: invariant_def)
  then show "p = compressImage env (original it) (Some (Num 800)) (Some (Num 2560))"
    by (simp add: compressImage_default)
qed

lemma run_photo:
  "run demo [HandleFiles (Some [(''y'', photo)])] init =
     Some \<lparr>images = [fresh_item ''y'' photo 0\<lparr>status := Compressing\<rparr>],
           processingQueue = {''y''},
           tasks = [AwaitCompress (fresh_item ''y'' photo 0)
                      (Some ([DrawImage (Num 1000) (Num 500), ToBlob quality],
                             Inr (replicate 10 0)))],
           nextUrl = 1, revoked = []\<rparr>"
  by (simp add: init_def dispatch.simps handleFiles_def createObjectURL_def setImages_def
      processOne_def fresh_item_def compress_photo)

theorem processOne_configuration_witness:
  "tasks (processOne demo (fresh_item ''y'' photo 0) init) =
     [AwaitCompress (fresh_item ''y'' photo 0)
        (compressImage demo photo (Some (Num 800)) (Some (Num 2560)))]
   \<and> compressImage demo photo (Some (Num 800)) (Some (Num 2560)) =
       Some ([DrawImage (Num 1000) (Num 500), ToBlob quality], Inr (replicate 10 0))"
proof -
  let ?s = "\<lparr>images = [fresh_item ''y'' photo 0\<lparr>status := Compressing\<rparr>],
             processingQueue = {''y''},
             tasks = [AwaitCompress (fresh_item ''y'' photo 0)
                        (Some ([DrawImage (Num 1000) (Num 500), ToBlob quality],
                               Inr (replicate 10 0)))],
             nextUrl = 1, revoked = []\<rparr>"
  note inst = processOne_configuration [of "fresh_item ''y'' photo 0" init demo
      "[HandleFiles (Some [(''y'', photo)])]" ?s]
  have "imageId (fresh_item ''y'' photo 0) \<notin> processingQueue init"
    by (simp add: init_def)
  with inst have first: "tasks (processOne demo (fresh_item ''y'' photo 0) init) =
     [AwaitCompress (fresh_item ''y'' photo 0)
        (compressImage demo photo (Some (Num 800)) (Some (Num 2560)))]"
    by (simp add: init_def fresh_item_def)
  from inst run_photo have "Some ([DrawImage (Num 1000) (Num 500), ToBlob quality],
      Inr (replicate 10 0)) = compressImage demo photo (Some (Num 800)) (Some (Num 2560))"
    by (simp add: fresh_item_def)
  with first show ?thesis
    by simp
qed

text \<open>The maximal width is not 800: for a file that decodes to 1000 by 500, \<open>processOne\<close>
  awaits a compression that draws the image 1000 wide, while \<open>compressImage\<close> with the
  maximal width 800 draws it 800 wide.\<close>

theorem processOne_max_dimension_800_counterexample:
  "tasks (processOne demo (fresh_item ''y'' photo 0) init) \<noteq>
     [AwaitCompress (fresh_item ''y'' photo 0)
        (compressImage demo (original (fresh_item ''y'' photo 0))
           (Some (Num 800)) (Some (Num 800)))]
   \<and> tasks (processOne demo (fresh_item ''y'' photo 0) init) =
       [AwaitCompress (fresh_item ''y'' photo 0)
          (Some ([DrawImage (Num 1000) (Num 500), ToBlob quality], Inr (replicate 10 0)))]
   \<and> compressImage demo photo (Some (Num 800)) (Some (Num 800)) =
       Some ([DrawImage (Num 800) (Num 400), ToBlob quality], Inr (replicate 10 0))"
  by (simp add: processOne_def setImages_def init_def fresh_item_def compress_photo
      compress_photo_800)

lemma settle_resolved:
  assumes "k < length (tasks s)" and "tasks s ! k = AwaitCompress item (Some (ops, Inr blob))"
  shows "dispatch env (Settle k) s =
           processOne_resume env item (Inr blob)
             (s\<lparr>tasks := take k (tasks s) @ drop (Suc k) (tasks s)\<rparr>)"
  using assms by (simp add: dispatch.simps Let_def)

lemma settle_rejected:
  assumes "k < length (tasks s)" and "tasks s ! k = AwaitCompress item (Some (ops, Inl err))"
  shows "dispatch env (Settle k) s =
           processOne_resume env item (Inl err)
             (s\<lparr>tasks := take k (tasks s) @ drop (Suc k) (tasks s)\<rparr>)"
  using assms by (simp add: dispatch.simps Let_def)

lemma resume_resolved:
  "processOne_resume env item (Inr blob) s =
     s\<lparr>nextUrl := Suc (nextUrl s),
       tasks := tasks s @ [ThenAnalysis item (analyzeImage env blob)],
       images := map (\<lambda>img. if imageId img = imageId item
                             then img\<lparr>status := Done, compressed := Some blob,
                                      compressedUrl := Some (nextUrl s),
                                      compressedSize := Some (blob_size blob)\<rparr>
                             else img) (images s),
       processingQueue := processingQueue s - {imageId item}\<rparr>"
  by (simp add: processOne_resume_def createObjectURL_def setImages_def)

lemma resume_rejected:
  "processOne_resume env item (Inl err) s =
     s\<lparr>images := map (\<lambda>img. if imageId img = imageId item
                             then img\<lparr>status := Error, error := Some (message err)\<rparr>
                             else img) (images s),
       processingQueue := processingQueue s - {imageId item}\<rparr>"
  by (simp add: processOne_resume_def setImages_def)

lemma settle_analysis:
  assumes "j < length (tasks s)" and "tasks s ! j = ThenAnalysis item (Some reply)"
  shows "dispatch env (Settle j) s =
           analysis_then item reply (s\<lparr>tasks := take j (tasks s) @ drop (Suc j) (tasks s)\<rparr>)"
  using assms by (simp add: dispatch.simps Let_def)

lemma settle_never:
  assumes "j < length (tasks s)" and "tasks s ! j = ThenAnalysis item None"
  shows "dispatch env (Settle j) s = s"
  using assms by (simp add: dispatch.simps Let_def)

lemma analysis_then_images:
  "map status (images (analysis_then item reply s)) = map status (images s)"
  "map imageId (images (analysis_then item reply s)) = map imageId (images s)"
  "\<forall>img\<in>set (images (analysis_then item reply s)).
      imageId img = imageId item \<longrightarrow> aiAnalysis img = Some reply"
  by (auto simp: analysis_then_def setImages_def)

lemma analyzeImage_caught:
  "caught env blob \<Longrightarrow> analyzeImage env blob = Some ''AI analysis could not be completed.''"
  by (auto simp: analyzeImage_def caught_def split: option.splits sum.splits)

lemma analyzeImage_unread:
  "newGoogleGenAI env = None \<Longrightarrow> readBlob env blob = None \<Longrightarrow> analyzeImage env blob = None"
  by (simp add: analyzeImage_def)

text \<open>
  C4 (as the code has it). When the compression of an item resolves, the item is set to
  \<open>done\<close> with the compressed blob, its \<open>aiAnalysis\<close> is as it was, and the \<open>then\<close> callback
  of the analysis is pending. When the analyzer throws where its \<open>try\<close> catches it (in the
  constructor of the client or in the request), \<open>analyzeImage\<close> fulfils with its fixed
  string, and once the callback has run the item is still \<open>done\<close> and its \<open>aiAnalysis\<close> is
  the string \<open>AI analysis could not be completed.\<close> When instead the read of the blob
  fails, the exception is thrown in the callback of the reader, outside the \<open>try\<close>:
  \<open>analyzeImage\<close> never settles, the callback never runs and the state stays as the
  compression left it. Whenever the callback runs, it leaves every status as it is and sets
  the \<open>aiAnalysis\<close> of the items with that id.
\<close>

theorem analysis_failure_sets_fallback:
  assumes k: "k < length (tasks s)"
    and task: "tasks s ! k = AwaitCompress item (Some (ops, Inr blob))"
  shows "(\<forall>img\<in>set (images (dispatch env (Settle k) s)).
            imageId img = imageId item \<longrightarrow> status img = Done \<and> compressed img = Some blob)
       \<and> map aiAnalysis (images (dispatch env (Settle k) s)) = map aiAnalysis (images s)
       \<and> tasks (dispatch env (Settle k) s) ! (length (tasks s) - 1) =
            ThenAnalysis item (analyzeImage env blob)
       \<and> (caught env blob \<longrightarrow>
            analyzeImage env blob = Some ''AI analysis could not be completed.''
            \<and> (\<forall>img\<in>set (images (dispatch env (Settle (length (tasks s) - 1))
                                        (dispatch env (Settle k) s))).
                 imageId img = imageId item \<longrightarrow>
                   status img = Done
                   \<and> aiAnalysis img = Some ''AI analysis could not be completed.''))
       \<and> (newGoogleGenAI env = None \<and> readBlob env blob = None \<longrightarrow>
            analyzeImage env blob = None
            \<and> dispatch env (Settle (length (tasks s) - 1)) (dispatch env (Settle k) s) =
                dispatch env (Settle k) s)
       \<and> map imageId (images (dispatch env (Settle (length (tasks s) - 1))
                                   (dispatch env (Settle k) s))) = map imageId (images s)
       \<and> (\<forall>s' j reply.
            j < length (tasks s') \<and> tasks s' ! j = ThenAnalysis item (Some reply) \<longrightarrow>
              map status (images (dispatch env (Settle j) s')) = map status (images s')
              \<and> (\<forall>img\<in>set (images (dispatch env (Settle j) s')).
                    imageId img = imageId item \<longrightarrow> aiAnalysis img = Some reply))"
proof -
  let ?rest = "take k (tasks s) @ drop (Suc k) (tasks s)"
  let ?s1 = "dispatch env (Settle k) s"
  let ?n = "length (tasks s) - 1"
  let ?fallback = "''AI analysis could not be completed.''"
  from k have len: "length ?rest = ?n"
    by simp
  have s1: "?s1 = processOne_resume env item (Inr blob) (s\<lparr>tasks := ?rest\<rparr>)"
    using k task by (rule settle_resolved)
  have tasks1: "tasks ?s1 = ?rest @ [ThenAnalysis item (analyzeImage env blob)]"
    by (simp add: s1 resume_resolved)
  have nth: "tasks ?s1 ! ?n = ThenAnalysis item (analyzeImage env blob)"
    unfolding tasks1 using len by (metis nth_append_length)
  have done1: "\<forall>img\<in>set (images ?s1).
                 imageId img = imageId item \<longrightarrow> status img = Done \<and> compressed img = Some blob"
    by (auto simp: s1 resume_resolved)
  have kept: "map aiAnalysis (images ?s1) = map aiAnalysis (images s)"
    by (simp add: s1 resume_resolved comp_def)
  have ids1: "map imageId (images ?s1) = map imageId (images s)"
    by (simp add: s1 resume_resolved comp_def)
  have lt: "?n < length (tasks ?s1)"
    unfolding tasks1 using len by simp
  have fallback: "analyzeImage env blob = Some ?fallback
                  \<and> (\<forall>img\<in>set (images (dispatch env (Settle ?n) ?s1)).
                        imageId img = imageId item \<longrightarrow>
                          status img = Done \<and> aiAnalysis img = Some ?fallback)"
    if "caught env blob"
  proof -
    from that have a: "analyzeImage env blob = Some ?fallback"
      by (rule analyzeImage_caught)
    with nth have "tasks ?s1 ! ?n = ThenAnalysis item (Some ?fallback)"
      by simp
    with lt have "dispatch env (Settle ?n) ?s1 =
                    analysis_then item ?fallback
                      (?s1\<lparr>tasks := take ?n (tasks ?s1) @ drop (Suc ?n) (tasks ?s1)\<rparr>)"
      by (rule settle_analysis)
    with done1 a show ?thesis
      by (auto simp: analysis_then_def setImages_def)
  qed
  have never: "analyzeImage env blob = None \<and> dispatch env (Settle ?n) ?s1 = ?s1"
    if "newGoogleGenAI env = None \<and> readBlob env blob = None"
  proof -
    from that have a: "analyzeImage env blob = None"
      by (simp add: analyzeImage_unread)
    with nth have "tasks ?s1 ! ?n = ThenAnalysis item None"
      by simp
    with lt have "dispatch env (Settle ?n) ?s1 = ?s1"
      by (rule settle_never)
    with a show ?thesis
      by simp
  qed
  have ids: "map imageId (images (dispatch env (Settle ?n) ?s1)) = map imageId (images s)"
  proof (cases "analyzeImage env blob")
    case None
    with nth lt have "dispatch env (Settle ?n) ?s1 = ?s1"
      by (simp add: settle_never)
    with ids1 show ?thesis
      by simp
  next
    case (Some reply)
    with nth lt have "dispatch env (Settle ?n) ?s1 =
                        analysis_then item reply
                          (?s1\<lparr>tasks := take ?n (tasks ?s1) @ drop (Suc ?n) (tasks ?s1)\<rparr>)"
      by (simp add: settle_analysis)
    with ids1 show ?thesis
      by (simp add: analysis_then_images(2))
  qed
  have later: "map status (images (dispatch env (Settle j) s')) = map status (images s')
               \<and> (\<forall>img\<in>set (images (dispatch env (Settle j) s')).
                     imageId img = imageId item \<longrightarrow> aiAnalysis img = Some reply)"
    if "j < length (tasks s') \<and> tasks s' ! j = ThenAnalysis item (Some reply)" for s' j reply
    using that analysis_then_images [of item reply]
    by (simp add: settle_analysis)
  from done1 kept nth fallback never ids later show ?thesis
    by blast
qed

lemma run_photo_done:
  "run demo [HandleFiles (Some [(''y'', photo)]), Settle 0, Settle 0] init =
     Some \<lparr>images = [fresh_item ''y'' photo 0
                        \<lparr>status := Done, compressed := Some (replicate 10 0),
                         compressedUrl := Some 1, compressedSize := Some (Num 10),
                         aiAnalysis := Some ''AI analysis could not be completed.''\<rparr>],
           processingQueue = {}, tasks = [], nextUrl = 2, revoked = []\<rparr>"
  by (simp add: init_def dispatch.simps handleFiles_def createObjectURL_def setImages_def
      processOne_def fresh_item_def compress_photo resume_resolved analysis_then_def
      analyze_demo blob_size_def to_number_10)

lemma run_photo_pending:
  "run demo [HandleFiles (Some [(''y'', photo)])] init = Some photo_pending"
  unfolding photo_pending_def by (rule run_photo)

lemma run_two_pending:
  "run demo [HandleFiles (Some [(''x'', broken), (''y'', photo)])] init = Some two_pending"
  unfolding two_pending_def by (rule run_two)

lemma caught_demo: "caught demo b"
  by (simp add: caught_def demo_def split_comma_1_def)

theorem analysis_failure_sets_fallback_witness:
  "map aiAnalysis (images (dispatch demo (Settle 0) (dispatch demo (Settle 0) photo_pending))) =
     [Some ''AI analysis could not be completed.'']
   \<and> map status (images (dispatch demo (Settle 0) (dispatch demo (Settle 0) photo_pending))) =
     [Done]
   \<and> analyzeImage unreadable (replicate 10 0) = None
   \<and> dispatch unreadable (Settle 0) (dispatch unreadable (Settle 0) photo_pending) =
       dispatch unreadable (Settle 0) photo_pending
   \<and> map aiAnalysis (images (dispatch unreadable (Settle 0) photo_pending)) = [None]"
proof -
  let ?s2 = "dispatch demo (Settle 0) (dispatch demo (Settle 0) photo_pending)"
  have k: "0 < length (tasks photo_pending)"
    and task: "tasks photo_pending ! 0 =
                 AwaitCompress (fresh_item ''y'' photo 0)
                   (Some ([DrawImage (Num 1000) (Num 500), ToBlob quality], Inr (replicate 10 0)))"
    by (simp_all add: photo_pending_def)
  from analysis_failure_sets_fallback [OF k task, of demo] caught_demo
  have all: "\<forall>img\<in>set (images ?s2). imageId img = ''y'' \<longrightarrow>
               status img = Done \<and> aiAnalysis img = Some ''AI analysis could not be completed.''"
    and ids: "map imageId (images ?s2) = [''y'']"
    by (simp_all add: photo_pending_def fresh_item_def)
  from ids obtain img where one: "images ?s2 = [img]" and "imageId img = ''y''"
    by auto
  with all have caught_case:
    "map aiAnalysis (images ?s2) = [Some ''AI analysis could not be completed.'']
     \<and> map status (images ?s2) = [Done]"
    by simp
  have "newGoogleGenAI unreadable = None \<and> readBlob unreadable (replicate 10 0) = None"
    by (simp add: unreadable_def demo_def)
  with analysis_failure_sets_fallback [OF k task, of unreadable]
  have "analyzeImage unreadable (replicate 10 0) = None
        \<and> dispatch unreadable (Settle 0) (dispatch unreadable (Settle 0) photo_pending) =
            dispatch unreadable (Settle 0) photo_pending
        \<and> map aiAnalysis (images (dispatch unreadable (Settle 0) photo_pending)) =
            map aiAnalysis (images photo_pending)"
    by (simp add: photo_pending_def)
  with caught_case show ?thesis
    by (simp add: photo_pending_def fresh_item_def)
qed

text \<open>The field is not left unset: on the example page, whose model service throws on the
  request, the item ends \<open>done\<close> with \<open>aiAnalysis\<close> set.\<close>

theorem analysis_left_unset_counterexample:
  "run demo [HandleFiles (Some [(''y'', photo)]), Settle 0, Settle 0] init =
     Some \<lparr>images = [fresh_item ''y'' photo 0
                        \<lparr>status := Done, compressed := Some (replicate 10 0),
                         compressedUrl := Some 1, compressedSize := Some (Num 10),
                         aiAnalysis := Some ''AI analysis could not be completed.''\<rparr>],
           processingQueue = {}, tasks = [], nextUrl = 2, revoked = []\<rparr>
   \<and> readBlob demo (replicate 10 0) = Some ''data:image/jpeg;base64,AAAA''
   \<and> generateContent demo (Some ''AAAA'') = Inl (JsError ''quota exceeded'')
   \<and> aiAnalysis (fresh_item ''y'' photo 0
                     \<lparr>status := Done, compressed := Some (replicate 10 0),
                      compressedUrl := Some 1, compressedSize := Some (Num 10),
                      aiAnalysis := Some ''AI analysis could not be completed.''\<rparr>) \<noteq> None"
  using run_photo_done by (simp add: demo_def)

text \<open>
  C7. In every state the page can reach (ids being unique), when the pending compression
  of an item rejects, the continuation of \<open>processOne\<close> catches the error: every item with
  that id gets the status \<open>error\<close> and the message of the error, which is not empty, and has
  no compressed blob; the collection keeps its items, those with another id are unchanged;
  and the id leaves the guard set. The step yields a state: nothing is thrown further.
\<close>

theorem compression_failure_recorded:
  assumes run: "run env es init = Some s"
    and k: "k < length (tasks s)"
    and task: "tasks s ! k = AwaitCompress item (Some (ops, Inl err))"
  shows "(\<forall>img\<in>set (images (dispatch env (Settle k) s)).
            imageId img = imageId item \<longrightarrow>
              status img = Error \<and> error img = Some (message err) \<and> message err \<noteq> []
              \<and> compressed img = None)
       \<and> map imageId (images (dispatch env (Settle k) s)) = map imageId (images s)
       \<and> (\<forall>j<length (images s).
            imageId (images s ! j) \<noteq> imageId item \<longrightarrow>
              images (dispatch env (Settle k) s) ! j = images s ! j)
       \<and> imageId item \<notin> processingQueue (dispatch env (Settle k) s)"
proof -
  let ?s' = "dispatch env (Settle k) s"
  from run have inv: "invariant env s"
    by (rule reachable_invariant)
  from k task have pending: "AwaitCompress item (Some (ops, Inl err)) \<in> set (tasks s)"
    by (metis nth_mem)
  with inv have queued: "imageId item \<in> processingQueue s"
    by (rule pending_is_queued)
  from inv pending have "Some (ops, Inl err) = compressImage env (original item) (Some (Num 800)) None"
    by (simp add: invariant_def)
  then have "message err \<in> {''File read error'', ''Image load error'',
                              ''Canvas context failed'', ''Compression failed''}"
    by (metis compressImage_rejects)
  then have msg: "message err \<noteq> []"
    by auto
  have s': "?s' = processOne_resume env item (Inl err)
                    (s\<lparr>tasks := take k (tasks s) @ drop (Suc k) (tasks s)\<rparr>)"
    using k task by (rule settle_rejected)
  from inv queued have none: "\<forall>img\<in>set (images s). imageId img = imageId item \<longrightarrow> compressed img = None"
    by (simp add: invariant_def)
  have items: "\<forall>img\<in>set (images ?s'). imageId img = imageId item \<longrightarrow>
                 status img = Error \<and> error img = Some (message err) \<and> message err \<noteq> []
                 \<and> compressed img = None"
    using none msg by (auto simp: s' resume_rejected)
  have ids: "map imageId (images ?s') = map imageId (images s)"
    by (simp add: s' resume_rejected comp_def)
  have others: "\<forall>j<length (images s). imageId (images s ! j) \<noteq> imageId item \<longrightarrow>
                  images ?s' ! j = images s ! j"
    by (simp add: s' resume_rejected)
  have released: "imageId item \<notin> processingQueue ?s'"
    by (simp add: s' resume_rejected)
  from items ids others released show ?thesis
    by blast
qed

lemma settle_two_pending:
  "dispatch demo (Settle 0) two_pending =
     \<lparr>images = [fresh_item ''x'' broken 0\<lparr>status := Error, error := Some ''Image load error''\<rparr>,
                fresh_item ''y'' photo 1\<lparr>status := Compressing\<rparr>],
      processingQueue = {''y''},
      tasks = [AwaitCompress (fresh_item ''y'' photo 1)
                 (Some ([DrawImage (Num 1000) (Num 500), ToBlob quality], Inr (replicate 10 0)))],
      nextUrl = 2, revoked = []\<rparr>"
  by (simp add: two_pending_def dispatch.simps resume_rejected fresh_item_def)

theorem compression_failure_recorded_witness:
  "map status (images (dispatch demo (Settle 0) two_pending)) = [Error, Compressing]
   \<and> map error (images (dispatch demo (Settle 0) two_pending)) = [Some ''Image load error'', None]
   \<and> map compressed (images (dispatch demo (Settle 0) two_pending)) = [None, None]
   \<and> images (dispatch demo (Settle 0) two_pending) ! 1 = images two_pending ! 1
   \<and> ''x'' \<notin> processingQueue (dispatch demo (Settle 0) two_pending)"
proof -
  have k: "0 < length (tasks two_pending)"
    and task: "tasks two_pending ! 0 =
                 AwaitCompress (fresh_item ''x'' broken 0)
                   (Some ([], Inl (JsError ''Image load error'')))"
    by (simp_all add: two_pending_def)
  from compression_failure_recorded [OF run_two_pending k task]
  have "''x'' \<notin> processingQueue (dispatch demo (Settle 0) two_pending)"
    by (simp add: fresh_item_def)
  then show ?thesis
    by (simp add: settle_two_pending) (simp add: two_pending_def fresh_item_def)
qed

lemma count_list_distinct: "distinct xs \<Longrightarrow> x \<in> set xs \<Longrightarrow> count_list xs x = 1"
  by (induction xs) auto

lemma processOne_guarded:
  "imageId item \<in> processingQueue s \<Longrightarrow> processOne env item s = s"
  by (simp add: processOne_def)

lemma processOne_starts:
  "imageId item \<notin> processingQueue s \<Longrightarrow>
     processingQueue (processOne env item s) = insert (imageId item) (processingQueue s)
     \<and> awaiting (tasks (processOne env item s)) = awaiting (tasks s) @ [imageId item]"
  by (simp add: processOne_def setImages_def awaiting_append)

lemma resume_releases: "imageId item \<notin> processingQueue (processOne_resume env item settled s)"
  by (cases settled) (simp_all add: resume_resolved resume_rejected)

text \<open>
  C6. In every state the page can reach: while the compression of an id is pending, a
  further \<open>processOne\<close> for that id changes nothing; two requests for one id in a row start
  exactly one compression of it; the id enters the guard set when the compression starts;
  and it leaves the guard set when \<open>processOne\<close> resumes, whether the promise resolved or
  rejected.
\<close>

theorem guard_one_run_per_id:
  assumes run: "run env es init = Some s"
  shows "(\<forall>item p item'. AwaitCompress item p \<in> set (tasks s) \<and> imageId item' = imageId item \<longrightarrow>
            processOne env item' s = s)
       \<and> (\<forall>item item'. imageId item' = imageId item \<longrightarrow>
            processOne env item' (processOne env item s) = processOne env item s
            \<and> count_list (awaiting (tasks (processOne env item' (processOne env item s))))
                 (imageId item) = 1)
       \<and> (\<forall>item. imageId item \<notin> processingQueue s \<longrightarrow>
            imageId item \<in> processingQueue (processOne env item s))
       \<and> (\<forall>item settled s0. imageId item \<notin> processingQueue (processOne_resume env item settled s0))
       \<and> (\<forall>k item ops settled.
            k < length (tasks s) \<and> tasks s ! k = AwaitCompress item (Some (ops, settled)) \<longrightarrow>
              imageId item \<notin> processingQueue (dispatch env (Settle k) s))"
proof -
  from run have inv: "invariant env s"
    by (rule reachable_invariant)
  then have dist: "distinct (awaiting (tasks s))"
    and queue: "set (awaiting (tasks s)) = processingQueue s"
    by (simp_all add: invariant_def)
  have noop: "processOne env item' s = s"
    if "AwaitCompress item p \<in> set (tasks s)" and "imageId item' = imageId item"
    for item p item'
    using pending_is_queued [OF inv that(1)] that(2) by (simp add: processOne_guarded)
  have once: "processOne env item' (processOne env item s) = processOne env item s
              \<and> count_list (awaiting (tasks (processOne env item' (processOne env item s))))
                   (imageId item) = 1"
    if same: "imageId item' = imageId item" for item item'
  proof (cases "imageId item \<in> processingQueue s")
    case True
    then have "processOne env item s = s" and "processOne env item' s = s"
      using same by (simp_all add: processOne_guarded)
    moreover from True dist queue have "count_list (awaiting (tasks s)) (imageId item) = 1"
      by (simp add: count_list_distinct)
    ultimately show ?thesis
      by simp
  next
    case False
    note started = processOne_starts [OF False, of env]
    from started same have "imageId item' \<in> processingQueue (processOne env item s)"
      by simp
    then have "processOne env item' (processOne env item s) = processOne env item s"
      by (rule processOne_guarded)
    moreover from False queue have "count_list (awaiting (tasks s)) (imageId item) = 0"
      by simp
    with started
    have "count_list (awaiting (tasks (processOne env item s))) (imageId item) = 1"
      by simp
    ultimately show ?thesis
      by simp
  qed
  have added: "imageId item \<in> processingQueue (processOne env item s)"
    if "imageId item \<notin> processingQueue s" for item
    using processOne_starts [OF that, of env] by simp
  have settled: "imageId item \<notin> processingQueue (dispatch env (Settle k) s)"
    if "k < length (tasks s)" and "tasks s ! k = AwaitCompress item (Some (ops, settled))"
    for k item ops settled
    using that by (simp add: dispatch.simps Let_def resume_releases)
  from noop once added settled show ?thesis
    using resume_releases by blast
qed

theorem guard_one_run_per_id_witness:
  "processOne demo (fresh_item ''y'' photo 5) photo_pending = photo_pending
   \<and> count_list (awaiting (tasks (processOne demo (fresh_item ''y'' photo 0)
                                    (processOne demo (fresh_item ''y'' photo 0) photo_pending))))
        ''y'' = 1
   \<and> ''y'' \<notin> processingQueue (dispatch demo (Settle 0) photo_pending)"
proof -
  note g = guard_one_run_per_id [OF run_photo_pending]
  have pending: "AwaitCompress (fresh_item ''y'' photo 0)
                   (Some ([DrawImage (Num 1000) (Num 500), ToBlob quality], Inr (replicate 10 0)))
                 \<in> set (tasks photo_pending)"
    and k: "0 < length (tasks photo_pending)"
    and task: "tasks photo_pending ! 0 =
                 AwaitCompress (fresh_item ''y'' photo 0)
                   (Some ([DrawImage (Num 1000) (Num 500), ToBlob quality], Inr (replicate 10 0)))"
    and ids: "imageId (fresh_item ''y'' photo 5) = imageId (fresh_item ''y'' photo 0)"
      "imageId (fresh_item ''y'' photo 0) = ''y''"
    by (simp_all add: photo_pending_def fresh_item_def)
  from g pending ids(1) have "processOne demo (fresh_item ''y'' photo 5) photo_pending = photo_pending"
    by blast
  moreover from g ids(2)
  have "count_list (awaiting (tasks (processOne demo (fresh_item ''y'' photo 0)
                                       (processOne demo (fresh_item ''y'' photo 0) photo_pending))))
          ''y'' = 1"
    by metis
  moreover from g k task ids(2) have "''y'' \<notin> processingQueue (dispatch demo (Settle 0) photo_pending)"
    by metis
  ultimately show ?thesis
    by blast
qed

text \<open>
  C8. In every state the page can reach (ids being unique), every item has a compressed
  blob exactly when its status is \<open>done\<close>, and then its \<open>compressedSize\<close> is the size of that
  blob.
\<close>

theorem compressed_iff_done:
  assumes "run env es init = Some s"
  shows "\<forall>img\<in>set (images s).
           ((compressed img \<noteq> None) = (status img = Done))
           \<and> (status img = Done \<longrightarrow>
                (\<exists>b. compressed img = Some b \<and> compressedSize img = Some (blob_size b)))"
  using reachable_invariant [OF assms] by (simp add: invariant_def item_ok_def)

lemma run_two_settled:
  "run demo [HandleFiles (Some [(''x'', broken), (''y'', photo)]), Settle 0, Settle 0] init =
     Some two_settled"
proof -
  have "dispatch demo (Settle 0) (dispatch demo (Settle 0) two_pending) = two_settled"
    by (simp add: settle_two_pending)
      (simp add: dispatch.simps resume_resolved fresh_item_def analyze_demo blob_size_def
        to_number_10 two_settled_def)
  moreover have "dispatch demo (HandleFiles (Some [(''x'', broken), (''y'', photo)])) init = two_pending"
    using run_two_pending by (simp add: init_def split: if_splits)
  ultimately show ?thesis
    by (simp add: init_def)
qed

theorem compressed_iff_done_witness:
  "map status (images two_settled) = [Error, Done]
   \<and> map compressed (images two_settled) = [None, Some (replicate 10 0)]
   \<and> map compressedSize (images two_settled) = [None, Some (blob_size (replicate 10 0))]"
proof -
  from compressed_iff_done [OF run_two_settled]
  have "\<exists>b. compressed (images two_settled ! 1) = Some b
           \<and> compressedSize (images two_settled ! 1) = Some (blob_size b)"
    and "compressed (images two_settled ! 0) = None"
    by (simp_all add: two_settled_def fresh_item_def)
  moreover have "compressed (images two_settled ! 1) = Some (replicate 10 0)"
    by (simp add: two_settled_def fresh_item_def)
  ultimately have "compressedSize (images two_settled ! 1) = Some (blob_size (replicate 10 0))"
    by simp
  then show ?thesis
    by (simp add: two_settled_def fresh_item_def)
qed

text \<open>
  C9 (the code at the failing input). A file is dropped, its item is removed while the
  compression is pending, then the compression resolves: \<open>removeImage\<close> revokes the URL of
  the original (number 0), \<open>processOne\<close> then creates the URL of the compressed blob
  (number 1), and no item is left whose removal would revoke it.
\<close>

theorem removed_while_compressing_leaks_url:
  "run demo [HandleFiles (Some [(''y'', photo)]), RemoveImage ''y'', Settle 0] init =
     Some \<lparr>images = [], processingQueue = {},
           tasks = [ThenAnalysis (fresh_item ''y'' photo 0) (Some ''AI analysis could not be completed.'')],
           nextUrl = 2, revoked = [0]\<rparr>"
proof -
  have "dispatch demo (HandleFiles (Some [(''y'', photo)])) init = photo_pending"
    using run_photo_pending by (simp add: init_def split: if_splits)
  moreover have "dispatch demo (RemoveImage ''y'') photo_pending =
      photo_pending\<lparr>images := [], revoked := [0]\<rparr>"
    by (simp add: dispatch.simps removeImage_def revokeObjectURL_def photo_pending_def
        fresh_item_def)
  moreover have "dispatch demo (Settle 0) (photo_pending\<lparr>images := [], revoked := [0]\<rparr>) =
      \<lparr>images = [], processingQueue = {},
       tasks = [ThenAnalysis (fresh_item ''y'' photo 0) (Some ''AI analysis could not be completed.'')],
       nextUrl = 2, revoked = [0]\<rparr>"
    by (simp add: dispatch.simps resume_resolved photo_pending_def analyze_demo fresh_item_def)
  ultimately show ?thesis
    by (simp add: init_def)
qed

end
